theory Spec2Isabelle
  imports Complex_Main "HOL-Library.Char_ord" "HOL-Library.List_Lexorder" "HOL-Library.Log_Nat"
    "HOL-Library.Multiset"
begin

section \<open>Values read from the spreadsheet\<close>

text \<open>
  The program is a Google Apps Script (\<^verbatim>\<open>expense_splitter.js\<close>). A cell of a sheet, as
  \<^verbatim>\<open>getValues()\<close> hands it over, is a text or a number; reading a row at an index it
  does not have (in particular at \<^verbatim>\<open>-1\<close>, the result of a failed \<^verbatim>\<open>indexOf\<close>)
  gives \<^verbatim>\<open>undefined\<close>. An empty cell is the empty text.

  Numbers are JavaScript doubles in the program. In the reading of the sheets and the
  allocation of the expenses they are taken in exact arithmetic, as rationals: no rounding
  of sums and quotients, no infinities, and \<^verbatim>\<open>NaN\<close> is the value \<open>None\<close> of an optional
  number. The minimizer, whose loop tests a difference of doubles against 0.01, is taken
  in double arithmetic (section Settlement). Texts are taken over ASCII. Objects used as
  dictionaries (\<^verbatim>\<open>balances\<close>, \<^verbatim>\<open>perItemSplits\<close>) are association lists in insertion
  order; keys that collide with properties inherited from \<^verbatim>\<open>Object.prototype\<close>, and
  the numeric reordering of index-like keys by \<^verbatim>\<open>Object.entries\<close>, are outside the model.
\<close>

datatype cell = Undefined | Str string | Num rat

datatype error = TypeError

text \<open>Truthiness, as \<^verbatim>\<open>!x\<close>, \<^verbatim>\<open>x && ...\<close> and \<^verbatim>\<open>filter(Boolean)\<close> test it.\<close>

fun truthy :: "cell \<Rightarrow> bool" where
  "truthy Undefined = False"
| "truthy (Str s) = (s \<noteq> [])"
| "truthy (Num n) = (n \<noteq> 0)"

text \<open>\<^verbatim>\<open>row[j]\<close>: \<^verbatim>\<open>undefined\<close> outside the row.\<close>

definition cellAt :: "cell list \<Rightarrow> int \<Rightarrow> cell" where
  "cellAt row j = (if 0 \<le> j \<and> j < int (length row) then row ! nat j else Undefined)"

subsection \<open>String methods\<close>

definition isWhiteSpace :: "char \<Rightarrow> bool" where
  "isWhiteSpace c = (c \<in> set [CHR '' '', CHR 0x09, CHR 0x0A, CHR 0x0B, CHR 0x0C, CHR 0x0D])"

definition trim :: "string \<Rightarrow> string" where
  "trim s = rev (dropWhile isWhiteSpace (rev (dropWhile isWhiteSpace s)))"

definition toLowerChar :: "char \<Rightarrow> char" where
  "toLowerChar c =
     (case map_of (zip ''ABCDEFGHIJKLMNOPQRSTUVWXYZ'' ''abcdefghijklmnopqrstuvwxyz'') c of
        Some l \<Rightarrow> l | None \<Rightarrow> c)"

definition toUpperChar :: "char \<Rightarrow> char" where
  "toUpperChar c =
     (case map_of (zip ''abcdefghijklmnopqrstuvwxyz'' ''ABCDEFGHIJKLMNOPQRSTUVWXYZ'') c of
        Some u \<Rightarrow> u | None \<Rightarrow> c)"

definition toLowerCase :: "string \<Rightarrow> string" where
  "toLowerCase s = map toLowerChar s"

text \<open>\<^verbatim>\<open>s.split(sep)\<close> for a one-character separator: never the empty list.\<close>

fun splitOn :: "char \<Rightarrow> string \<Rightarrow> string list" where
  "splitOn sep [] = [[]]"
| "splitOn sep (c # cs) =
     (if c = sep then [] # splitOn sep cs
      else (case splitOn sep cs of
              [] \<Rightarrow> [[c]]
            | w # ws \<Rightarrow> (c # w) # ws))"

text \<open>\<^verbatim>\<open>xs.join(sep)\<close>.\<close>

fun joinWith :: "string \<Rightarrow> string list \<Rightarrow> string" where
  "joinWith sep [] = []"
| "joinWith sep [x] = x"
| "joinWith sep (x # y # ys) = x @ sep @ joinWith sep (y # ys)"

text \<open>
  \<^verbatim>\<open>function capitalize(str) { return str.charAt(0).toUpperCase() + str.slice(1); }\<close>
\<close>

fun capitalize :: "string \<Rightarrow> string" where
  "capitalize [] = []"
| "capitalize (c # cs) = toUpperChar c # cs"

text \<open>
  \<^verbatim>\<open>function formatGroup(groupKey) {
    return groupKey.split(",").map(name => capitalize(name)).join(", "); }\<close>
\<close>

definition formatGroup :: "string \<Rightarrow> string" where
  "formatGroup groupKey = joinWith '', '' (map capitalize (splitOn CHR '','' groupKey))"

subsection \<open>parseFloat\<close>

text \<open>
  \<^verbatim>\<open>parseFloat\<close> skips leading white space and reads the longest prefix that is a decimal
  literal: an optional sign, digits with an optional fraction (or a fraction alone), an
  optional exponent. No such prefix gives \<^verbatim>\<open>NaN\<close>, here \<open>None\<close>. A number is parsed to
  itself and \<^verbatim>\<open>undefined\<close> to \<^verbatim>\<open>NaN\<close>. The literal \<^verbatim>\<open>Infinity\<close> has no value in exact
  arithmetic and is read as no number.
\<close>

definition isDigit :: "char \<Rightarrow> bool" where
  "isDigit c = (c \<in> set ''0123456789'')"

definition digitVal :: "char \<Rightarrow> nat" where
  "digitVal c = (case map_of (zip ''0123456789'' [0, 1, 2, 3, 4, 5, 6, 7, 8, 9]) c of
                   Some d \<Rightarrow> d | None \<Rightarrow> 0)"

definition digitsVal :: "string \<Rightarrow> nat" where
  "digitsVal ds = foldl (\<lambda>acc c. 10 * acc + digitVal c) 0 ds"

definition readSign :: "string \<Rightarrow> rat \<times> string" where
  "readSign s = (case s of
                   c # r \<Rightarrow> (if c = CHR ''-'' then (-1, r)
                             else if c = CHR ''+'' then (1, r) else (1, s))
                 | [] \<Rightarrow> (1, s))"

definition readExponent :: "string \<Rightarrow> rat" where
  "readExponent s =
     (case s of
        c # r \<Rightarrow>
          (if c = CHR ''e'' \<or> c = CHR ''E'' then
             (let (sg, r') = readSign r; ds = takeWhile isDigit r'
              in if ds = [] then 1
                 else if sg < 0 then 1 / 10 ^ digitsVal ds else 10 ^ digitsVal ds)
           else 1)
      | [] \<Rightarrow> 1)"

definition parseFloatStr :: "string \<Rightarrow> rat option" where
  "parseFloatStr s =
     (let (sg, s1) = readSign (dropWhile isWhiteSpace s);
          ip = takeWhile isDigit s1;
          s2 = dropWhile isDigit s1;
          hasDot = (s2 \<noteq> [] \<and> hd s2 = CHR ''.'');
          fp = (if hasDot then takeWhile isDigit (tl s2) else []);
          s3 = (if hasDot then dropWhile isDigit (tl s2) else s2)
      in if ip = [] \<and> fp = [] then None
         else Some (sg * (of_nat (digitsVal ip) + of_nat (digitsVal fp) / 10 ^ length fp)
                       * readExponent s3))"

fun parseFloat :: "cell \<Rightarrow> rat option" where
  "parseFloat Undefined = None"
| "parseFloat (Str s) = parseFloatStr s"
| "parseFloat (Num n) = Some n"

section \<open>Dictionaries and sets\<close>

text \<open>
  Assigning to a property of an object, and \<^verbatim>\<open>Map.set\<close>: an existing key keeps its place
  and takes the new value, a new key goes to the end.
\<close>

primrec setProp :: "'k \<Rightarrow> 'v \<Rightarrow> ('k \<times> 'v) list \<Rightarrow> ('k \<times> 'v) list" where
  "setProp k v [] = [(k, v)]"
| "setProp k v (p # ps) = (if fst p = k then (k, v) # ps else p # setProp k v ps)"

text \<open>\<^verbatim>\<open>obj.hasOwnProperty(k)\<close>, \<^verbatim>\<open>map.has(k)\<close>.\<close>

definition hasOwnProperty :: "('k \<times> 'v) list \<Rightarrow> 'k \<Rightarrow> bool" where
  "hasOwnProperty obj k = (k \<in> set (map fst obj))"

text \<open>\<^verbatim>\<open>obj[k] || 0\<close>; also \<^verbatim>\<open>obj[k]\<close> where the key is known to be there.\<close>

definition valueOr0 :: "('k \<times> rat) list \<Rightarrow> 'k \<Rightarrow> rat" where
  "valueOr0 obj k = (case map_of obj k of None \<Rightarrow> 0 | Some v \<Rightarrow> v)"

text \<open>\<^verbatim>\<open>new Set(xs)\<close>: the elements in order of first occurrence.\<close>

definition setAdd :: "'a list \<Rightarrow> 'a \<Rightarrow> 'a list" where
  "setAdd s x = (if x \<in> set s then s else s @ [x])"

definition newSet :: "'a list \<Rightarrow> 'a list" where
  "newSet xs = foldl setAdd [] xs"

text \<open>\<^verbatim>\<open>xs.indexOf(x)\<close>: the first index, or \<^verbatim>\<open>-1\<close>.\<close>

fun indexOf :: "'a list \<Rightarrow> 'a \<Rightarrow> int" where
  "indexOf [] x = - 1"
| "indexOf (y # ys) x =
     (if y = x then 0 else (let i = indexOf ys x in if i < 0 then - 1 else i + 1))"

section \<open>Reading members, subgroups and columns\<close>

text \<open>
  \<^verbatim>\<open>const allMembers = new Set(
    membersData.flat().filter(Boolean).map(name => String(name).trim().toLowerCase()));\<close>
  The cells of the members column are texts.
\<close>

definition allMembersOf :: "string list \<Rightarrow> string list" where
  "allMembersOf membersData =
     newSet (map (\<lambda>name. toLowerCase (trim name)) (filter (\<lambda>name. name \<noteq> []) membersData))"

text \<open>
  \<^verbatim>\<open>subgroupsData.flat().filter(Boolean).forEach(raw => {
    const grp = raw.split(",").map(n => n.trim().toLowerCase()).filter(Boolean);
    if (grp.length > 0) subgroupMap.set(grp.sort().join(","), new Set(grp)); });\<close>
  \<^verbatim>\<open>sort\<close> sorts the array in place before the set is built from it.
\<close>

definition parseGroup :: "string \<Rightarrow> string list" where
  "parseGroup raw =
     filter (\<lambda>n. n \<noteq> []) (map (\<lambda>n. toLowerCase (trim n)) (splitOn CHR '','' raw))"

definition registerSubgroup ::
  "(string \<times> string list) list \<Rightarrow> string \<Rightarrow> (string \<times> string list) list" where
  "registerSubgroup subgroupMap raw =
     (let grp = parseGroup raw
      in if grp = [] then subgroupMap
         else setProp (joinWith '','' (sort grp)) (newSet (sort grp)) subgroupMap)"

definition subgroupMapOf :: "string list \<Rightarrow> (string \<times> string list) list" where
  "subgroupMapOf subgroupsData =
     foldl registerSubgroup [] (filter (\<lambda>raw. raw \<noteq> []) subgroupsData)"

record columnIndexes =
  expensesStartCol :: int
  paidByColIndex :: int
  amountColIndex :: int
  splitBetweenColIndex :: int

definition getColumnIndexesExpenses :: "string list \<Rightarrow> columnIndexes" where
  "getColumnIndexesExpenses headers =
     \<lparr> expensesStartCol = indexOf headers ''item'',
       paidByColIndex = indexOf headers ''paid by'',
       amountColIndex = indexOf headers ''amount'',
       splitBetweenColIndex = indexOf headers ''split between'' \<rparr>"

section \<open>Assigning members to subgroups\<close>

record subgroupState =
  subgroupMap :: "(string \<times> string list) list"
  nameToGroupKey :: "(string \<times> string) list"
  nameToGroup :: "(string \<times> string list) list"

text \<open>
  The body of the loop over \<^verbatim>\<open>allMembers\<close> in \<^verbatim>\<open>assignMembersToSubgroups\<close>; the
  variable \<^verbatim>\<open>group\<close> of the program is \<open>grp\<close> here. The maps are searched and written in
  insertion order.
\<close>

definition assignMember :: "subgroupState \<Rightarrow> string \<Rightarrow> subgroupState" where
  "assignMember st member =
     (case find (\<lambda>(key, grp). member \<in> set grp) (subgroupMap st) of
        Some (key, grp) \<Rightarrow>
          st\<lparr> nameToGroupKey := setProp member key (nameToGroupKey st),
              nameToGroup := setProp member grp (nameToGroup st) \<rparr>
      | None \<Rightarrow>
          st\<lparr> subgroupMap := setProp member [member] (subgroupMap st),
              nameToGroupKey := setProp member member (nameToGroupKey st),
              nameToGroup := setProp member [member] (nameToGroup st) \<rparr>)"

definition assignMembersToSubgroups :: "string list \<Rightarrow> subgroupState \<Rightarrow> subgroupState" where
  "assignMembersToSubgroups allMembers st = foldl assignMember st allMembers"

section \<open>Allocating expenses\<close>

type_synonym participant = "string \<times> rat"

text \<open>
  One entry of the split list:
  \<^verbatim>\<open>let [name, weight] = entry.split(":").map(s => s.trim());
  weight = parseFloat(weight);
  if (isNaN(weight) || weight <= 0) weight = 1;\<close>
\<close>

definition parseEntry :: "string \<Rightarrow> participant" where
  "parseEntry entry =
     (case map trim (splitOn CHR '':'' entry) of
        [] \<Rightarrow> ([], 1)
      | name # rest \<Rightarrow>
          (let weight = (case rest of [] \<Rightarrow> None | w # _ \<Rightarrow> parseFloatStr w)
           in (name, case weight of None \<Rightarrow> 1 | Some w \<Rightarrow> if w \<le> 0 then 1 else w)))"

text \<open>The loop that removes duplicates by name, keeping the first.\<close>

fun uniqueLoop :: "string list \<Rightarrow> participant list \<Rightarrow> participant list" where
  "uniqueLoop seen [] = []"
| "uniqueLoop seen (p # ps) =
     (if fst p \<in> set seen then uniqueLoop seen ps else p # uniqueLoop (fst p # seen) ps)"

definition splitEntries :: "string \<Rightarrow> string list" where
  "splitEntries s =
     filter (\<lambda>n. n \<noteq> []) (map (\<lambda>n. toLowerCase (trim n)) (splitOn CHR '','' s))"

text \<open>
  \<^verbatim>\<open>getParticipants\<close>. A cell that is not a text has neither \<^verbatim>\<open>trim\<close> nor
  \<^verbatim>\<open>split\<close>: the call throws.
\<close>

definition getParticipants :: "cell \<Rightarrow> string list \<Rightarrow> error + participant list" where
  "getParticipants splitBetweenRaw allMembers =
     (case splitBetweenRaw of
        Str s \<Rightarrow>
          if s \<noteq> [] \<and> trim s = ''*'' then Inr (map (\<lambda>m. (m, 1)) allMembers)
          else Inr (uniqueLoop [] (map parseEntry (splitEntries s)))
      | _ \<Rightarrow> Inl TypeError)"

type_synonym balances = "(string \<times> rat) list"
type_synonym perItemSplits = "(cell \<times> (string \<times> rat) list) list"

text \<open>
  \<^verbatim>\<open>if (!balances.hasOwnProperty(name)) balances[name] = 0; balances[name] += delta;\<close>
  (with \<open>delta = - share\<close> for \<^verbatim>\<open>-= share\<close>).
\<close>

definition addToBalance :: "string \<Rightarrow> rat \<Rightarrow> balances \<Rightarrow> balances" where
  "addToBalance name delta bal =
     (let bal' = (if hasOwnProperty bal name then bal else setProp name 0 bal)
      in setProp name (valueOr0 bal' name + delta) bal')"

text \<open>
  \<^verbatim>\<open>perItemSplits[item][name] = (perItemSplits[item][name] || 0) + delta;\<close>
  The entry of the item is there when this runs. The key of an item is its cell; a number
  and the text that spells it, one key in the program, are two keys here.
\<close>

definition addToSplit :: "cell \<Rightarrow> string \<Rightarrow> rat \<Rightarrow> perItemSplits \<Rightarrow> perItemSplits" where
  "addToSplit item name delta splits =
     (case map_of splits item of
        None \<Rightarrow> splits
      | Some shares \<Rightarrow> setProp item (setProp name (valueOr0 shares name + delta) shares) splits)"

text \<open>
  \<^verbatim>\<open>perItemSplits[item][member] || 0\<close>, the share that \<^verbatim>\<open>writePerItemSplitTable\<close>
  shows for a member on an item; 0 also where the item has no entry.
\<close>

definition memberShare :: "perItemSplits \<Rightarrow> cell \<Rightarrow> string \<Rightarrow> rat" where
  "memberShare splits item member =
     (case map_of splits item of None \<Rightarrow> 0 | Some shares \<Rightarrow> valueOr0 shares member)"

text \<open>
  The callback of \<^verbatim>\<open>participants.forEach\<close>:
  \<^verbatim>\<open>const share = amount * (weight / totalWeight);\<close> and the two subtractions.
\<close>

definition debitShare ::
  "cell \<Rightarrow> rat \<Rightarrow> rat \<Rightarrow> balances \<times> perItemSplits \<Rightarrow> participant
     \<Rightarrow> balances \<times> perItemSplits" where
  "debitShare item amount totalWeight st p =
     (let share = amount * (snd p / totalWeight)
      in (addToBalance (fst p) (- share) (fst st), addToSplit item (fst p) (- share) (snd st)))"

text \<open>
  The share of a name under a list of participants with distinct names,
  \<^verbatim>\<open>amount * (weight / totalWeight)\<close>, and 0 for a name that is no participant.
\<close>

definition shareOf :: "participant list \<Rightarrow> rat \<Rightarrow> string \<Rightarrow> rat" where
  "shareOf participants amount name =
     (case map_of participants name of
        None \<Rightarrow> 0
      | Some weight \<Rightarrow> amount * (weight / sum_list (map snd participants)))"

text \<open>The part of the loop body of \<^verbatim>\<open>processExpenses\<close> after the two \<^verbatim>\<open>continue\<close>s.\<close>

definition allocate ::
  "cell \<Rightarrow> string \<Rightarrow> rat \<Rightarrow> participant list \<Rightarrow> balances \<times> perItemSplits
     \<Rightarrow> balances \<times> perItemSplits" where
  "allocate item paidBy amount participants st =
     (let totalWeight = sum_list (map snd participants);
          splits1 = (if hasOwnProperty (snd st) item then snd st else setProp item [] (snd st));
          st2 = foldl (debitShare item amount totalWeight) (fst st, splits1) participants
      in (addToBalance paidBy amount (fst st2), addToSplit item paidBy amount (snd st2)))"

text \<open>
  The body of the loop of \<^verbatim>\<open>processExpenses\<close> for one row. The first \<^verbatim>\<open>continue\<close> is
  taken when the item or the payer is not a true value or the amount is \<^verbatim>\<open>NaN\<close>. Then
  \<^verbatim>\<open>paidByRaw.trim()\<close> throws for a payer that is a number, and \<^verbatim>\<open>getParticipants\<close>
  may throw; both come before anything is written, so a row that throws leaves the
  balances as they were.
\<close>

definition processRow ::
  "int \<Rightarrow> int \<Rightarrow> int \<Rightarrow> int \<Rightarrow> string list \<Rightarrow> balances \<times> perItemSplits \<Rightarrow> cell list
     \<Rightarrow> error + balances \<times> perItemSplits" where
  "processRow itemCol paidByCol amountCol splitCol allMembers st row =
     (let item = cellAt row itemCol;
          paidByRaw = cellAt row paidByCol;
          amount = parseFloat (cellAt row amountCol);
          splitBetweenRaw = cellAt row splitCol
      in case amount of
           None \<Rightarrow> Inr st
         | Some a \<Rightarrow>
             if \<not> truthy item \<or> \<not> truthy paidByRaw then Inr st
             else (case paidByRaw of
                     Str s \<Rightarrow>
                       (case getParticipants splitBetweenRaw allMembers of
                          Inl e \<Rightarrow> Inl e
                        | Inr participants \<Rightarrow>
                            if participants = [] then Inr st
                            else Inr (allocate item (toLowerCase (trim s)) a participants st))
                   | _ \<Rightarrow> Inl TypeError))"

fun processRows ::
  "int \<Rightarrow> int \<Rightarrow> int \<Rightarrow> int \<Rightarrow> string list \<Rightarrow> balances \<times> perItemSplits \<Rightarrow> cell list list
     \<Rightarrow> error + balances \<times> perItemSplits" where
  "processRows ic pc ac sc allMembers st [] = Inr st"
| "processRows ic pc ac sc allMembers st (row # rows) =
     (case processRow ic pc ac sc allMembers st row of
        Inl e \<Rightarrow> Inl e
      | Inr st' \<Rightarrow> processRows ic pc ac sc allMembers st' rows)"

text \<open>
  \<^verbatim>\<open>processExpenses\<close>: the loop starts at index 1, after the header row. The four column
  parameters are \<^verbatim>\<open>expensesStartCol\<close>, \<^verbatim>\<open>paidByColIndex\<close>, \<^verbatim>\<open>amountColIndex\<close> and
  \<^verbatim>\<open>splitBetweenColIndex\<close>.
\<close>

definition processExpenses ::
  "cell list list \<Rightarrow> int \<Rightarrow> int \<Rightarrow> int \<Rightarrow> int \<Rightarrow> string list \<Rightarrow> balances \<Rightarrow> perItemSplits
     \<Rightarrow> error + balances \<times> perItemSplits" where
  "processExpenses data itemCol paidByCol amountCol splitCol
       allMembers bal splits =
     processRows itemCol paidByCol amountCol splitCol
       allMembers (bal, splits) (drop 1 data)"

text \<open>\<^verbatim>\<open>allMembers.forEach(name => balances[name] = 0);\<close> on the empty object.\<close>

definition initBalances :: "string list \<Rightarrow> balances" where
  "initBalances allMembers = foldl (\<lambda>bal name. setProp name 0 bal) [] allMembers"

section \<open>Subgroup balances\<close>

text \<open>
  \<^verbatim>\<open>calculateGroupBalances\<close>. \<^verbatim>\<open>nameToGroupKey.get(name)\<close> is \<^verbatim>\<open>undefined\<close>, here
  \<open>None\<close>, for a name that is no member; the map of group balances then has that key.
  The parameters are \<^verbatim>\<open>subgroupMap\<close>, which the function does not use,
  \<^verbatim>\<open>nameToGroupKey\<close> and \<^verbatim>\<open>balances\<close>.
\<close>

definition calculateGroupBalances ::
  "(string \<times> string list) list \<Rightarrow> (string \<times> string) list \<Rightarrow> balances
     \<Rightarrow> (string option \<times> rat) list" where
  "calculateGroupBalances groups groupKeyOf bal =
     foldl (\<lambda>groupBalances (name, balance).
              let groupKey = map_of groupKeyOf name;
                  groupBalances' = (if hasOwnProperty groupBalances groupKey then groupBalances
                                    else setProp groupKey 0 groupBalances)
              in setProp groupKey (valueOr0 groupBalances' groupKey + balance) groupBalances')
           [] bal"

section \<open>Settlement\<close>

text \<open>
  The minimizer computes with doubles, and a turn of its loop tests a difference of two
  doubles against 0.01; the result of that test is not the one of exact arithmetic
  (\<^verbatim>\<open>0.03 - 0.02 < 0.01\<close> holds). So the numbers of the minimizer are doubles here: a
  double is the rational number it stands for, and \<open>toDouble x\<close> is the double nearest to
  \<open>x\<close>, a number with a significand of 53 bits, a tie going to the even significand. The
  range of the exponent is not modelled (no overflow to \<^verbatim>\<open>Infinity\<close>, no subnormal
  numbers), and \<^verbatim>\<open>-0\<close> is 0.

  \<open>roundEven m\<close> is the integer nearest to \<open>m\<close>, the even one of two; \<open>binade a\<close> is,
  for a positive \<open>a\<close>, the exponent \<open>e\<close> with \<open>2 powi e \<le> a < 2 powi (e + 1)\<close>.
\<close>

definition roundEven :: "rat \<Rightarrow> int" where
  "roundEven m = (let f = \<lfloor>m\<rfloor>; r = m - of_int f
                  in if r < 1 / 2 then f else if 1 / 2 < r then f + 1
                     else if even f then f else f + 1)"

definition binade :: "rat \<Rightarrow> int" where
  "binade a = (let (p, q) = quotient_of a; e = bitlen p - bitlen q
               in if 2 powi e \<le> a then e else e - 1)"

definition toDouble :: "rat \<Rightarrow> rat" where
  "toDouble x = (if x = 0 then 0
                 else let e = binade \<bar>x\<bar> - 52
                      in sgn x * of_int (roundEven (\<bar>x\<bar> / 2 powi e)) * 2 powi e)"

text \<open>
  The number that \<^verbatim>\<open>x.toFixed(2)\<close> shows: the multiple of 0.01 nearest to the number the
  double \<open>x\<close> stands for, a tie going away from zero.
\<close>

definition round2 :: "rat \<Rightarrow> rat" where
  "round2 x = (if x < 0 then - (of_int \<lfloor>(- x) * 100 + 1 / 2\<rfloor> / 100)
               else of_int \<lfloor>x * 100 + 1 / 2\<rfloor> / 100)"

text \<open>
  \<^verbatim>\<open>xs.sort((a, b) => b.amount - a.amount)\<close>: by falling amount; the sort is stable. The
  difference of two doubles has the sign of the exact difference.
\<close>

definition sortDesc :: "('k \<times> rat) list \<Rightarrow> ('k \<times> rat) list" where
  "sortDesc xs = sort_key (\<lambda>p. - snd p) xs"

text \<open>
  The two lists built by the first loop of the minimizer:
  \<^verbatim>\<open>const val = parseFloat(balance.toFixed(2));\<close>
  \<^verbatim>\<open>if (val > 0.01) creditors.push({ name, amount: val });\<close>
  \<^verbatim>\<open>else if (val < -0.01) debtors.push({ name, amount: -val });\<close>
  The literal \<^verbatim>\<open>0.01\<close> is the double \<open>toDouble (1 / 100)\<close>.
\<close>

definition creditorsOf :: "('k \<times> rat) list \<Rightarrow> ('k \<times> rat) list" where
  "creditorsOf bal =
     map (\<lambda>(name, balance). (name, toDouble (round2 balance)))
       (filter (\<lambda>(name, balance). toDouble (round2 balance) > toDouble (1 / 100)) bal)"

definition debtorsOf :: "('k \<times> rat) list \<Rightarrow> ('k \<times> rat) list" where
  "debtorsOf bal =
     map (\<lambda>(name, balance). (name, - toDouble (round2 balance)))
       (filter (\<lambda>(name, balance). \<not> toDouble (round2 balance) > toDouble (1 / 100)
                                   \<and> toDouble (round2 balance) < - toDouble (1 / 100)) bal)"

text \<open>
  What is left of the list after its first party has transferred:
  \<^verbatim>\<open>party.amount -= amount; if (party.amount < 0.01) list.shift();\<close>
  The subtraction is the one of doubles.
\<close>

definition afterTransfer :: "('k \<times> rat) \<Rightarrow> rat \<Rightarrow> ('k \<times> rat) list \<Rightarrow> ('k \<times> rat) list" where
  "afterTransfer party amount rest =
     (let remainder = toDouble (snd party - amount)
      in if remainder < toDouble (1 / 100) then rest else (fst party, remainder) # rest)"

text \<open>
  The \<^verbatim>\<open>while (debtors.length && creditors.length)\<close> loop, shared by
  \<^verbatim>\<open>generateMinimalMemberTransactions\<close> and \<^verbatim>\<open>generateMinimalSubgroupTransactions\<close>. It
  returns the transactions in the order they are pushed, with the keys of the two parties
  (the program formats them as it pushes) and the number that \<^verbatim>\<open>amount.toFixed(2)\<close>
  shows.
\<close>

function settleLoop :: "('k \<times> rat) list \<Rightarrow> ('k \<times> rat) list \<Rightarrow> ('k \<times> 'k \<times> rat) list" where
  "settleLoop debtors creditors =
     (if debtors = [] \<or> creditors = [] then []
      else (case (sortDesc debtors, sortDesc creditors) of
              (debtor # ds, creditor # cs) \<Rightarrow>
                (let amount = min (snd debtor) (snd creditor)
                 in (fst debtor, fst creditor, round2 amount) #
                    settleLoop (afterTransfer debtor amount ds) (afterTransfer creditor amount cs))
            | _ \<Rightarrow> []))"
  by pat_completeness auto

termination settleLoop
proof (relation "measure (\<lambda>(ds, cs). length ds + length cs)", goal_cases)
  case 1
  show ?case by simp
next
  case (2 debtors creditors x y debtor ds creditor cs amount)
  from 2 have sd: "sortDesc debtors = debtor # ds" and sc: "sortDesc creditors = creditor # cs"
    by simp_all
  have "length (sortDesc debtors) = length debtors" "length (sortDesc creditors) = length creditors"
    by (simp_all add: sortDesc_def)
  then have ld: "length debtors = Suc (length ds)" and lc: "length creditors = Suc (length cs)"
    unfolding sd sc by simp_all
  have cent: "toDouble 0 < toDouble (1 / 100)" by code_simp
  have "snd debtor - amount = 0 \<or> snd creditor - amount = 0"
    using 2 by (simp add: min_def)
  then have "toDouble (snd debtor - amount) < toDouble (1 / 100)
             \<or> toDouble (snd creditor - amount) < toDouble (1 / 100)"
    using cent by auto
  then show ?case using ld lc by (auto simp: afterTransfer_def Let_def)
qed

declare settleLoop.simps [simp del]

type_synonym transaction = "string \<times> string \<times> rat"

text \<open>
  \<^verbatim>\<open>generateMinimalMemberTransactions(balances)\<close>, on the entries of \<^verbatim>\<open>balances\<close>. Each
  transaction is \<^verbatim>\<open>[capitalize(debtor.name), capitalize(creditor.name), amount.toFixed(2)]\<close>.
\<close>

definition generateMinimalMemberTransactions :: "balances \<Rightarrow> transaction list" where
  "generateMinimalMemberTransactions bal =
     map (\<lambda>(debtor, creditor, amount). (capitalize debtor, capitalize creditor, amount))
       (settleLoop (debtorsOf bal) (creditorsOf bal))"

text \<open>
  \<^verbatim>\<open>generateMinimalSubgroupTransactions(groupBalances)\<close>. \<^verbatim>\<open>formatGroup\<close> splits its
  argument, so the key \<^verbatim>\<open>undefined\<close> makes it throw when a transaction with it is pushed.
\<close>

fun formatTransactions :: "(string option \<times> string option \<times> rat) list \<Rightarrow> error + transaction list" where
  "formatTransactions [] = Inr []"
| "formatTransactions ((Some debtor, Some creditor, amount) # ts) =
     (case formatTransactions ts of
        Inl e \<Rightarrow> Inl e
      | Inr ts' \<Rightarrow> Inr ((formatGroup debtor, formatGroup creditor, amount) # ts'))"
| "formatTransactions (_ # ts) = Inl TypeError"

definition generateMinimalSubgroupTransactions ::
  "(string option \<times> rat) list \<Rightarrow> error + transaction list" where
  "generateMinimalSubgroupTransactions groupBalances =
     formatTransactions (settleLoop (debtorsOf groupBalances) (creditorsOf groupBalances))"

section \<open>The run\<close>

text \<open>
  \<^verbatim>\<open>calculateExpensesWithSubgroups\<close>, from the values read from the three sheets to the
  values handed to the five table writers. The calls of the spreadsheet service (looking
  the sheets and the members column up, which throw when one is missing, reading ranges,
  writing and styling the tables) are outside the model. A header that is a number is
  spelt with digits and is none of the four column names; it stands here as the empty text.
  \<^verbatim>\<open>writeSubgroupBalanceTable\<close> throws on a group key \<^verbatim>\<open>undefined\<close>, for which
  \<^verbatim>\<open>subgroupMap.get\<close> has no set to list. A run that throws is \<open>Inl\<close>, also when the
  first two tables were written before the throw.
\<close>

record outputTables =
  outPerItemSplits :: perItemSplits
  outBalances :: balances
  outGroupBalances :: "(string option \<times> rat) list"
  outSubgroupTransactions :: "transaction list"
  outMemberTransactions :: "transaction list"

definition headersOf :: "cell list \<Rightarrow> string list" where
  "headersOf row = map (\<lambda>h. case h of Str s \<Rightarrow> trim (toLowerCase s) | _ \<Rightarrow> []) row"

definition calculateExpensesWithSubgroups ::
  "string list \<Rightarrow> string list \<Rightarrow> cell list list \<Rightarrow> error + outputTables" where
  "calculateExpensesWithSubgroups membersData subgroupsData expensesData =
     (case expensesData of
        [] \<Rightarrow> Inl TypeError
      | headerRow # _ \<Rightarrow>
          (let allMembers = allMembersOf membersData;
               cols = getColumnIndexesExpenses (headersOf headerRow);
               st = assignMembersToSubgroups allMembers
                      \<lparr> subgroupMap = subgroupMapOf subgroupsData,
                        nameToGroupKey = [], nameToGroup = [] \<rparr>
           in case processExpenses expensesData (expensesStartCol cols) (paidByColIndex cols)
                     (amountColIndex cols) (splitBetweenColIndex cols) allMembers
                     (initBalances allMembers) [] of
                Inl e \<Rightarrow> Inl e
              | Inr (bal, splits) \<Rightarrow>
                  (let groupBalances = calculateGroupBalances (subgroupMap st) (nameToGroupKey st) bal
                   in if hasOwnProperty groupBalances None then Inl TypeError
                      else (case generateMinimalSubgroupTransactions groupBalances of
                              Inl e \<Rightarrow> Inl e
                            | Inr groupTransactions \<Rightarrow>
                                Inr \<lparr> outPerItemSplits = splits,
                                      outBalances = bal,
                                      outGroupBalances = groupBalances,
                                      outSubgroupTransactions = groupTransactions,
                                      outMemberTransactions =
                                        generateMinimalMemberTransactions bal \<rparr>))))"

section \<open>Vocabulary of the properties\<close>

text \<open>
  The lists of the loop hold amounts that are at least the double 0.01: so they start (the
  amounts are taken beyond 0.01), and so they stay (a party with less is dropped).
\<close>

definition wellFormed :: "('k \<times> rat) list \<Rightarrow> bool" where
  "wellFormed parties = (\<forall>p\<in>set parties. toDouble (1 / 100) \<le> snd p)"



















text \<open>
  The first registered group that has a member, as the inner loop of
  \<^verbatim>\<open>assignMembersToSubgroups\<close> finds it; and the condition that no member is named as
  the key of a registered group that it is not in.
\<close>

definition firstGroup :: "(string \<times> string list) list \<Rightarrow> string \<Rightarrow> (string \<times> string list) option" where
  "firstGroup sm member = find (\<lambda>(key, grp). member \<in> set grp) sm"

definition noCollision :: "(string \<times> string list) list \<Rightarrow> string list \<Rightarrow> bool" where
  "noCollision sm members = (\<forall>(key, grp)\<in>set sm. key \<in> set members \<longrightarrow> key \<in> set grp)"

section \<open>Properties of the dictionaries\<close>

lemma map_of_setProp: "map_of (setProp k v al) = (map_of al)(k \<mapsto> v)"
  by (induction al) auto

lemma keys_setProp: "fst ` set (setProp k v al) = insert k (fst ` set al)"
  by (induction al) auto

lemma valueOr0_setProp: "valueOr0 (setProp k v al) k' = (if k' = k then v else valueOr0 al k')"
  by (simp add: valueOr0_def map_of_setProp)

lemma valueOr0_absent: "\<not> hasOwnProperty al k \<Longrightarrow> valueOr0 al k = 0"
  by (induction al) (auto simp: valueOr0_def hasOwnProperty_def)

lemma sum_setProp:
  "sum_list (map snd (setProp k v al)) = sum_list (map snd al) - valueOr0 al k + v"
  by (induction al) (auto simp: valueOr0_def)

lemma sum_addToBalance:
  "sum_list (map snd (addToBalance name d bal)) = sum_list (map snd bal) + d"
  by (simp add: addToBalance_def Let_def sum_setProp valueOr0_setProp valueOr0_absent)

lemma fst_debitShare:
  "fst (debitShare item a t st p) = addToBalance (fst p) (- (a * (snd p / t))) (fst st)"
  by (simp add: debitShare_def Let_def)

lemma sum_debit_loop:
  "sum_list (map snd (fst (foldl (debitShare item a t) st ps)))
   = sum_list (map snd (fst st)) - a * (sum_list (map snd ps) / t)"
proof (induction ps arbitrary: st)
  case Nil
  show ?case by simp
next
  case (Cons p ps)
  have "sum_list (map snd (fst (foldl (debitShare item a t) st (p # ps))))
        = sum_list (map snd (fst (debitShare item a t st p))) - a * (sum_list (map snd ps) / t)"
    using Cons.IH [of "debitShare item a t st p"] by simp
  also have "\<dots> = sum_list (map snd (fst st)) - a * (snd p / t) - a * (sum_list (map snd ps) / t)"
    by (simp only: fst_debitShare sum_addToBalance diff_conv_add_uminus)
  also have "\<dots> = sum_list (map snd (fst st)) - a * (sum_list (map snd (p # ps)) / t)"
    by (simp add: add_divide_distrib distrib_left)
  finally show ?case .
qed

lemma sum_allocate:
  assumes "sum_list (map snd participants) \<noteq> 0"
  shows "sum_list (map snd (fst (allocate item paidBy amount participants st)))
         = sum_list (map snd (fst st))"
proof -
  define t where "t = sum_list (map snd participants)"
  define st1 where "st1 = (fst st, if hasOwnProperty (snd st) item then snd st else setProp item [] (snd st))"
  have "fst (allocate item paidBy amount participants st)
        = addToBalance paidBy amount (fst (foldl (debitShare item amount t) st1 participants))"
    by (simp add: allocate_def Let_def t_def st1_def)
  then have "sum_list (map snd (fst (allocate item paidBy amount participants st)))
        = sum_list (map snd (fst st1)) - amount * (t / t) + amount"
    by (simp only: sum_addToBalance sum_debit_loop t_def)
  moreover have "t / t = 1" using assms by (simp add: t_def)
  moreover have "fst st1 = fst st" by (simp add: st1_def)
  ultimately show ?thesis by simp
qed

lemma sum_list_pos_rat:
  fixes xs :: "rat list"
  shows "xs \<noteq> [] \<Longrightarrow> \<forall>x\<in>set xs. 0 < x \<Longrightarrow> 0 < sum_list xs"
proof (induction xs)
  case Nil
  then show ?case by simp
next
  case (Cons x xs)
  show ?case
  proof (cases "xs = []")
    case True
    with Cons.prems show ?thesis by simp
  next
    case False
    with Cons have "0 < sum_list xs" by simp
    with Cons.prems show ?thesis by simp
  qed
qed

lemma parseEntry_weight_pos: "0 < snd (parseEntry e)"
  by (auto simp: parseEntry_def Let_def split: list.splits option.splits)

lemma set_uniqueLoop_subset: "set (uniqueLoop seen ps) \<subseteq> set ps"
  by (induction ps arbitrary: seen) auto

lemma getParticipants_weight_pos:
  assumes "getParticipants c allMembers = Inr ps" and "p \<in> set ps"
  shows "0 < snd p"
proof (cases c)
  case (Str s)
  show ?thesis
  proof (cases "s \<noteq> [] \<and> trim s = ''*''")
    case True
    with assms Str show ?thesis by (auto simp: getParticipants_def)
  next
    case False
    with assms Str have "p \<in> set (map parseEntry (splitEntries s))"
      using set_uniqueLoop_subset [of "[]" "map parseEntry (splitEntries s)"]
      by (auto simp: getParticipants_def)
    then show ?thesis using parseEntry_weight_pos by auto
  qed
qed (use assms in \<open>simp_all add: getParticipants_def\<close>)

lemma getParticipants_total_pos:
  assumes "getParticipants c allMembers = Inr ps" and "ps \<noteq> []"
  shows "0 < sum_list (map snd ps)"
proof -
  have "\<forall>w\<in>set (map snd ps). 0 < w"
    using getParticipants_weight_pos [OF assms(1)] by auto
  then show ?thesis
    using sum_list_pos_rat [of "map snd ps"] assms(2) by simp
qed

text \<open>What a row does: nothing, or the allocation.\<close>

lemma processRow_Inr:
  assumes "processRow ic pc ac sc allMembers st row = Inr st'"
  shows "st' = st \<or>
         (\<exists>a s ps. parseFloat (cellAt row ac) = Some a \<and> truthy (cellAt row ic) \<and>
            cellAt row pc = Str s \<and> s \<noteq> [] \<and>
            getParticipants (cellAt row sc) allMembers = Inr ps \<and> ps \<noteq> [] \<and>
            st' = allocate (cellAt row ic) (toLowerCase (trim s)) a ps st)"
proof (cases "parseFloat (cellAt row ac)")
  case None
  with assms show ?thesis by (simp add: processRow_def)
next
  case (Some a)
  show ?thesis
  proof (cases "truthy (cellAt row ic) \<and> truthy (cellAt row pc)")
    case False
    with assms Some show ?thesis by (auto simp add: processRow_def)
  next
    case True
    show ?thesis
    proof (cases "cellAt row pc")
      case Undefined
      with True show ?thesis by simp
    next
      case (Num n)
      with assms Some True show ?thesis by (simp add: processRow_def)
    next
      case (Str s)
      show ?thesis
      proof (cases "getParticipants (cellAt row sc) allMembers")
        case (Inl e)
        with assms Some True Str show ?thesis by (simp add: processRow_def)
      next
        case (Inr ps)
        with assms Some True Str show ?thesis
          by (cases "ps = []") (simp_all add: processRow_def)
      qed
    qed
  qed
qed

lemma sum_processRow:
  assumes "processRow ic pc ac sc allMembers st row = Inr st'"
  shows "sum_list (map snd (fst st')) = sum_list (map snd (fst st))"
proof -
  from processRow_Inr [OF assms] show ?thesis
  proof
    assume "st' = st"
    then show ?thesis by simp
  next
    assume "\<exists>a s ps. parseFloat (cellAt row ac) = Some a \<and> truthy (cellAt row ic) \<and>
            cellAt row pc = Str s \<and> s \<noteq> [] \<and>
            getParticipants (cellAt row sc) allMembers = Inr ps \<and> ps \<noteq> [] \<and>
            st' = allocate (cellAt row ic) (toLowerCase (trim s)) a ps st"
    then obtain a s ps where gp: "getParticipants (cellAt row sc) allMembers = Inr ps" "ps \<noteq> []"
      and st': "st' = allocate (cellAt row ic) (toLowerCase (trim s)) a ps st"
      by blast
    have "sum_list (map snd ps) \<noteq> 0"
      using getParticipants_total_pos [OF gp] by simp
    then show ?thesis unfolding st' by (rule sum_allocate)
  qed
qed

lemma sum_processRows:
  "processRows ic pc ac sc allMembers st rows = Inr st'
   \<Longrightarrow> sum_list (map snd (fst st')) = sum_list (map snd (fst st))"
proof (induction rows arbitrary: st)
  case Nil
  then show ?case by simp
next
  case (Cons row rows)
  show ?case
  proof (cases "processRow ic pc ac sc allMembers st row")
    case (Inl e)
    with Cons.prems show ?thesis by simp
  next
    case (Inr st1)
    with Cons.prems have "processRows ic pc ac sc allMembers st1 rows = Inr st'" by simp
    then have "sum_list (map snd (fst st')) = sum_list (map snd (fst st1))" by (rule Cons.IH)
    with sum_processRow [OF Inr] show ?thesis by simp
  qed
qed

lemma all_zero_setProp:
  "\<forall>p\<in>set al. snd p = 0 \<Longrightarrow> \<forall>p\<in>set (setProp k (0::rat) al). snd p = 0"
  by (induction al) auto

lemma all_zero_init:
  "\<forall>p\<in>set bal. snd p = 0 \<Longrightarrow>
   \<forall>p\<in>set (foldl (\<lambda>bal name. setProp name (0::rat) bal) bal ms). snd p = 0"
proof (induction ms arbitrary: bal)
  case Nil
  then show ?case by simp
next
  case (Cons m ms)
  have "\<forall>p\<in>set (setProp m 0 bal). snd p = 0"
    using Cons.prems by (rule all_zero_setProp)
  then show ?case using Cons.IH [of "setProp m 0 bal"] by simp
qed

lemma sum_all_zero: "\<forall>p\<in>set al. snd p = (0::rat) \<Longrightarrow> sum_list (map snd al) = 0"
  by (induction al) auto

lemma sum_initBalances: "sum_list (map snd (initBalances ms)) = 0"
  unfolding initBalances_def by (rule sum_all_zero, rule all_zero_init) simp

subsection \<open>Rows that throw\<close>

text \<open>
  A row throws only for a payer that is a number, or for a split cell that is no text, and
  then only when its item, payer and amount pass the first test.
\<close>

lemma processRow_Inl:
  assumes "processRow ic pc ac sc allMembers st row = Inl e"
  shows "e = TypeError \<and> truthy (cellAt row ic) \<and> truthy (cellAt row pc) \<and>
         parseFloat (cellAt row ac) \<noteq> None \<and>
         ((\<exists>n. cellAt row pc = Num n) \<or> (\<forall>s. cellAt row sc \<noteq> Str s))"
proof (cases "parseFloat (cellAt row ac)")
  case None
  with assms show ?thesis by (simp add: processRow_def)
next
  case (Some a)
  show ?thesis
  proof (cases "truthy (cellAt row ic) \<and> truthy (cellAt row pc)")
    case False
    with assms Some show ?thesis by (auto simp add: processRow_def)
  next
    case True
    show ?thesis
    proof (cases "cellAt row pc")
      case Undefined
      with True show ?thesis by simp
    next
      case (Num n)
      with assms Some True show ?thesis by (cases e) (simp add: processRow_def)
    next
      case (Str s)
      show ?thesis
      proof (cases "cellAt row sc")
        case (Str spec)
        with assms Some True \<open>cellAt row pc = Str s\<close> show ?thesis
          by (simp add: processRow_def getParticipants_def split: if_splits)
      next
        case Undefined
        with Some True show ?thesis by (cases e) simp
      next
        case (Num n)
        with Some True show ?thesis by (cases e) simp
      qed
    qed
  qed
qed

lemma processRows_text_cells:
  assumes "\<forall>row\<in>set rows. (\<forall>n. cellAt row pc \<noteq> Num n) \<and> (\<exists>s. cellAt row sc = Str s)"
  shows "\<exists>st'. processRows ic pc ac sc allMembers st rows = Inr st'"
  using assms
proof (induction rows arbitrary: st)
  case Nil
  show ?case by simp
next
  case (Cons row rows)
  show ?case
  proof (cases "processRow ic pc ac sc allMembers st row")
    case (Inl e)
    from processRow_Inl [OF Inl] Cons.prems show ?thesis by auto
  next
    case (Inr st1)
    with Cons show ?thesis by simp
  qed
qed

section \<open>Conservation\<close>

text \<open>
  Claim C1. Start \<^verbatim>\<open>processExpenses\<close> on the balances the run gives it, zero for every
  member. After any prefix of the rows of the batch that it processes without throwing,
  the values of the balances sum to 0, exactly. (No row throws when no payer is a number
  and every split cell is a text, \<open>processRows_text_cells\<close>.)
\<close>

theorem conservation:
  assumes "processExpenses (take n data) ic pc ac sc allMembers (initBalances allMembers) []
             = Inr (bal', splits')"
  shows "sum_list (map snd bal') = 0"
  using sum_processRows [OF assms [unfolded processExpenses_def]] sum_initBalances by simp

theorem conservation_witness:
  "processExpenses
     (take 3 [[Str ''item'', Str ''paid by'', Str ''amount'', Str ''split between''],
              [Str ''Lunch'', Str ''Alice'', Num 90, Str ''*''],
              [Str ''Taxi'', Str ''Bob'', Str ''100'', Str ''Alice:3,Bob:1''],
              [Str ''Tea'', Str ''Carol'', Str ''7'', Str ''dave'']])
     0 1 2 3 [''alice'', ''bob'', ''carol''] (initBalances [''alice'', ''bob'', ''carol'']) []
   = Inr ([(''alice'', - 15), (''bob'', 45), (''carol'', - 30)],
          [(Str ''Lunch'', [(''alice'', 60), (''bob'', - 30), (''carol'', - 30)]),
           (Str ''Taxi'', [(''alice'', - 75), (''bob'', 75)])])
   \<and> sum_list (map snd [(''alice'', - 15), (''bob'', 45), (''carol'', - 30 :: rat)]) = 0"
proof -
  have run: "processExpenses
     (take 3 [[Str ''item'', Str ''paid by'', Str ''amount'', Str ''split between''],
              [Str ''Lunch'', Str ''Alice'', Num 90, Str ''*''],
              [Str ''Taxi'', Str ''Bob'', Str ''100'', Str ''Alice:3,Bob:1''],
              [Str ''Tea'', Str ''Carol'', Str ''7'', Str ''dave'']])
     0 1 2 3 [''alice'', ''bob'', ''carol''] (initBalances [''alice'', ''bob'', ''carol'']) []
   = Inr ([(''alice'', - 15), (''bob'', 45), (''carol'', - 30)],
          [(Str ''Lunch'', [(''alice'', 60), (''bob'', - 30), (''carol'', - 30)]),
           (Str ''Taxi'', [(''alice'', - 75), (''bob'', 75)])])"
    by code_simp
  from conservation [OF run] run show ?thesis by simp
qed

section \<open>What an allocation does to each name\<close>

lemma hasOwnProperty_setProp:
  "hasOwnProperty (setProp k v al) k' \<longleftrightarrow> k' = k \<or> hasOwnProperty al k'"
  using keys_setProp [of k v al] by (auto simp: hasOwnProperty_def)

lemma hasOwnProperty_map_of: "hasOwnProperty al k \<longleftrightarrow> map_of al k \<noteq> None"
  by (simp add: hasOwnProperty_def map_of_eq_None_iff)

lemma valueOr0_addToBalance:
  "valueOr0 (addToBalance n d bal) m = valueOr0 bal m + (if m = n then d else 0)"
  by (simp add: addToBalance_def Let_def valueOr0_setProp valueOr0_absent)


lemma hasOwnProperty_addToSplit:
  "hasOwnProperty (addToSplit item n d splits) item' \<longleftrightarrow> hasOwnProperty splits item'"
proof (cases "map_of splits item")
  case None
  then show ?thesis by (simp add: addToSplit_def)
next
  case (Some shares)
  then have "hasOwnProperty splits item" by (simp add: hasOwnProperty_map_of)
  with Some show ?thesis by (auto simp: addToSplit_def hasOwnProperty_setProp)
qed

lemma memberShare_addToSplit:
  assumes "hasOwnProperty splits item"
  shows "memberShare (addToSplit item n d splits) item' m
         = memberShare splits item' m + (if item' = item \<and> m = n then d else 0)"
proof -
  from assms obtain shares where sh: "map_of splits item = Some shares"
    by (auto simp: hasOwnProperty_map_of)
  show ?thesis
    by (simp add: memberShare_def addToSplit_def sh map_of_setProp valueOr0_setProp)
qed

lemma memberShare_new_item:
  assumes "\<not> hasOwnProperty splits item"
  shows "memberShare (setProp item [] splits) item' m = memberShare splits item' m"
  using assms
  by (auto simp: memberShare_def map_of_setProp hasOwnProperty_map_of valueOr0_def)

lemma debit_loop_balance:
  "valueOr0 (fst (foldl (debitShare item a t) st ps)) m
   = valueOr0 (fst st) m - a * (sum_list (map snd (filter (\<lambda>p. fst p = m) ps)) / t)"
proof (induction ps arbitrary: st)
  case Nil
  show ?case by simp
next
  case (Cons p ps)
  have "valueOr0 (fst (foldl (debitShare item a t) st (p # ps))) m
        = valueOr0 (fst (debitShare item a t st p)) m
          - a * (sum_list (map snd (filter (\<lambda>p. fst p = m) ps)) / t)"
    using Cons.IH [of "debitShare item a t st p"] by simp
  also have "valueOr0 (fst (debitShare item a t st p)) m
        = valueOr0 (fst st) m + (if m = fst p then - (a * (snd p / t)) else 0)"
    by (simp only: fst_debitShare valueOr0_addToBalance)
  finally show ?case
    by (simp add: add_divide_distrib distrib_left)
qed


lemma snd_debitShare:
  "snd (debitShare item a t st p) = addToSplit item (fst p) (- (a * (snd p / t))) (snd st)"
  by (simp add: debitShare_def Let_def)

lemma debit_loop_has_item:
  "hasOwnProperty (snd (foldl (debitShare item a t) st ps)) item' \<longleftrightarrow> hasOwnProperty (snd st) item'"
proof (induction ps arbitrary: st)
  case Nil
  show ?case by simp
next
  case (Cons p ps)
  show ?case
    using Cons.IH [of "debitShare item a t st p"]
    by (simp add: snd_debitShare hasOwnProperty_addToSplit)
qed

lemma debit_loop_share:
  assumes "hasOwnProperty (snd st) item"
  shows "memberShare (snd (foldl (debitShare item a t) st ps)) item' m
   = memberShare (snd st) item' m
     - (if item' = item then a * (sum_list (map snd (filter (\<lambda>p. fst p = m) ps)) / t) else 0)"
  using assms
proof (induction ps arbitrary: st)
  case Nil
  show ?case by simp
next
  case (Cons p ps)
  have has: "hasOwnProperty (snd (debitShare item a t st p)) item"
    using Cons.prems by (simp add: snd_debitShare hasOwnProperty_addToSplit)
  have "memberShare (snd (foldl (debitShare item a t) st (p # ps))) item' m
        = memberShare (snd (debitShare item a t st p)) item' m
          - (if item' = item then a * (sum_list (map snd (filter (\<lambda>p. fst p = m) ps)) / t) else 0)"
    using Cons.IH [OF has] by simp
  also have "memberShare (snd (debitShare item a t st p)) item' m
        = memberShare (snd st) item' m + (if item' = item \<and> m = fst p then - (a * (snd p / t)) else 0)"
    by (simp only: snd_debitShare memberShare_addToSplit [OF Cons.prems])
  finally show ?case
    by (simp add: add_divide_distrib distrib_left)
qed

lemma weight_of_distinct:
  "distinct (map fst ps) \<Longrightarrow>
   sum_list (map snd (filter (\<lambda>p. fst p = m) ps))
   = (case map_of ps m of None \<Rightarrow> (0::rat) | Some w \<Rightarrow> w)"
proof (induction ps)
  case Nil
  show ?case by simp
next
  case (Cons p ps)
  obtain n w where p: "p = (n, w)" by (cases p)
  show ?case
  proof (cases "n = m")
    case True
    with Cons.prems p have "filter (\<lambda>p. fst p = m) ps = []"
      by (auto simp: filter_empty_conv)
    with True p show ?thesis by simp
  next
    case False
    with Cons p show ?thesis by simp
  qed
qed

lemma allocate_balance:
  assumes "distinct (map fst ps)"
  shows "valueOr0 (fst (allocate item paidBy a ps st)) m
         = valueOr0 (fst st) m - shareOf ps a m + (if m = paidBy then a else 0)"
proof -
  define t where "t = sum_list (map snd ps)"
  define st1 where "st1 = (fst st, if hasOwnProperty (snd st) item then snd st else setProp item [] (snd st))"
  have "fst (allocate item paidBy a ps st)
        = addToBalance paidBy a (fst (foldl (debitShare item a t) st1 ps))"
    by (simp add: allocate_def Let_def t_def st1_def)
  then have "valueOr0 (fst (allocate item paidBy a ps st)) m
        = valueOr0 (fst st1) m - a * (sum_list (map snd (filter (\<lambda>p. fst p = m) ps)) / t)
          + (if m = paidBy then a else 0)"
    by (simp only: valueOr0_addToBalance debit_loop_balance)
  moreover have "a * (sum_list (map snd (filter (\<lambda>p. fst p = m) ps)) / t) = shareOf ps a m"
    by (simp add: weight_of_distinct [OF assms] shareOf_def t_def split: option.splits)
  moreover have "fst st1 = fst st" by (simp add: st1_def)
  ultimately show ?thesis by simp
qed


lemma allocate_share:
  assumes "distinct (map fst ps)"
  shows "memberShare (snd (allocate item paidBy a ps st)) item' m
         = memberShare (snd st) item' m
           + (if item' = item then (if m = paidBy then a else 0) - shareOf ps a m else 0)"
proof -
  define t where "t = sum_list (map snd ps)"
  define st1 where "st1 = (fst st, if hasOwnProperty (snd st) item then snd st else setProp item [] (snd st))"
  have has1: "hasOwnProperty (snd st1) item"
    by (simp add: st1_def hasOwnProperty_setProp)
  have has2: "hasOwnProperty (snd (foldl (debitShare item a t) st1 ps)) item"
    using has1 by (simp add: debit_loop_has_item)
  have same: "memberShare (snd st1) item' m = memberShare (snd st) item' m"
    by (simp add: st1_def memberShare_new_item)
  have "snd (allocate item paidBy a ps st)
        = addToSplit item paidBy a (snd (foldl (debitShare item a t) st1 ps))"
    by (simp add: allocate_def Let_def t_def st1_def)
  then have "memberShare (snd (allocate item paidBy a ps st)) item' m
        = memberShare (snd st1) item' m
          - (if item' = item then a * (sum_list (map snd (filter (\<lambda>p. fst p = m) ps)) / t) else 0)
          + (if item' = item \<and> m = paidBy then a else 0)"
    by (simp only: memberShare_addToSplit [OF has2] debit_loop_share [OF has1])
  moreover have "a * (sum_list (map snd (filter (\<lambda>p. fst p = m) ps)) / t) = shareOf ps a m"
    by (simp add: weight_of_distinct [OF assms] shareOf_def t_def split: option.splits)
  ultimately show ?thesis using same by simp
qed

lemma uniqueLoop_names:
  "fst ` set (uniqueLoop seen ps) = fst ` set ps - set seen"
  by (induction ps arbitrary: seen) auto

lemma distinct_uniqueLoop: "distinct (map fst (uniqueLoop seen ps))"
proof (induction ps arbitrary: seen)
  case Nil
  show ?case by simp
next
  case (Cons p ps)
  show ?case
    using Cons.IH uniqueLoop_names [of "fst p # seen" ps] by auto
qed

lemma getParticipants_distinct:
  assumes "distinct allMembers" and "getParticipants c allMembers = Inr ps"
  shows "distinct (map fst ps)"
proof (cases c)
  case (Str s)
  show ?thesis
  proof (cases "s \<noteq> [] \<and> trim s = ''*''")
    case True
    with assms Str have "ps = map (\<lambda>m. (m, 1)) allMembers" by (auto simp: getParticipants_def)
    with assms(1) show ?thesis by (simp add: comp_def)
  next
    case False
    with assms Str have "ps = uniqueLoop [] (map parseEntry (splitEntries s))"
      by (auto simp: getParticipants_def)
    then show ?thesis by (simp add: distinct_uniqueLoop)
  qed
qed (use assms in \<open>simp_all add: getParticipants_def\<close>)

lemma processRow_valid:
  assumes "truthy (cellAt row ic)" and "cellAt row pc = Str payer" and "payer \<noteq> []"
    and "parseFloat (cellAt row ac) = Some amount"
    and "getParticipants (cellAt row sc) allMembers = Inr ps" and "ps \<noteq> []"
  shows "processRow ic pc ac sc allMembers st row
         = Inr (allocate (cellAt row ic) (toLowerCase (trim payer)) amount ps st)"
  using assms by (simp add: processRow_def Let_def)

section \<open>Wildcard split\<close>

lemma shareOf_wildcard:
  assumes "distinct allMembers"
  shows "shareOf (map (\<lambda>m. (m, 1)) allMembers) amount name
         = (if name \<in> set allMembers then amount / of_nat (length allMembers) else 0)"
proof -
  have m: "map_of (map (\<lambda>m. (m, 1::rat)) allMembers) name
           = (if name \<in> set allMembers then Some 1 else None)"
    by (induction allMembers) auto
  have t: "sum_list (map snd (map (\<lambda>m. (m, 1::rat)) allMembers)) = of_nat (length allMembers)"
    by (induction allMembers) auto
  show ?thesis unfolding shareOf_def m t by simp
qed

text \<open>
  Claim C6. A row whose split cell trims to \<^verbatim>\<open>*\<close> has every known member as a
  participant, with weight 1. When the row is processed (true item, a text payer, a number
  as amount, at least one member) each member's balance falls by \<open>amount / N\<close>, \<open>N\<close>
  the number of members, and the payer's rises by the amount. For the members Alice, Bob
  and Carol and one expense of 90 paid by Alice and split by \<^verbatim>\<open>*\<close>, the run gives the
  balances 60, -30 and -30, and the member transactions Bob to Alice 30, Carol to Alice 30.
\<close>

theorem wildcard_split:
  assumes "distinct allMembers" and "allMembers \<noteq> []"
    and "cellAt row sc = Str spec" and "trim spec = ''*''"
    and "truthy (cellAt row ic)" and "cellAt row pc = Str payer" and "payer \<noteq> []"
    and "parseFloat (cellAt row ac) = Some amount"
  shows "getParticipants (cellAt row sc) allMembers = Inr (map (\<lambda>m. (m, 1)) allMembers)
    \<and> (\<exists>bal' splits'.
          processRow ic pc ac sc allMembers (bal, splits) row = Inr (bal', splits') \<and>
          (\<forall>name. valueOr0 bal' name
                   = valueOr0 bal name
                     - (if name \<in> set allMembers then amount / of_nat (length allMembers) else 0)
                     + (if name = toLowerCase (trim payer) then amount else 0)))
    \<and> calculateExpensesWithSubgroups [''Alice'', ''Bob'', ''Carol''] []
          [[Str ''Item'', Str ''Paid By'', Str ''Amount'', Str ''Split Between''],
           [Str ''Lunch'', Str ''Alice'', Num 90, Str ''*'']]
        = Inr \<lparr> outPerItemSplits = [(Str ''Lunch'', [(''alice'', 60), (''bob'', - 30), (''carol'', - 30)])],
                outBalances = [(''alice'', 60), (''bob'', - 30), (''carol'', - 30)],
                outGroupBalances = [(Some ''alice'', 60), (Some ''bob'', - 30), (Some ''carol'', - 30)],
                outSubgroupTransactions = [(''Bob'', ''Alice'', 30), (''Carol'', ''Alice'', 30)],
                outMemberTransactions = [(''Bob'', ''Alice'', 30), (''Carol'', ''Alice'', 30)] \<rparr>"
proof -
  let ?ps = "map (\<lambda>m. (m, 1::rat)) allMembers"
  have spec: "spec \<noteq> []" using assms(4) by (auto simp: trim_def)
  have gp: "getParticipants (cellAt row sc) allMembers = Inr ?ps"
    using assms(3,4) spec by (simp add: getParticipants_def)
  have ne: "?ps \<noteq> []" using assms(2) by simp
  have d: "distinct (map fst ?ps)" using assms(1) by (simp add: comp_def)
  have run: "processRow ic pc ac sc allMembers (bal, splits) row
             = Inr (allocate (cellAt row ic) (toLowerCase (trim payer)) amount ?ps (bal, splits))"
    using processRow_valid [OF assms(5,6,7,8) gp ne] .
  have bal: "valueOr0 (fst (allocate (cellAt row ic) (toLowerCase (trim payer)) amount ?ps (bal, splits))) name
             = valueOr0 bal name
               - (if name \<in> set allMembers then amount / of_nat (length allMembers) else 0)
               + (if name = toLowerCase (trim payer) then amount else 0)" for name
    using allocate_balance [OF d, of "cellAt row ic" "toLowerCase (trim payer)" amount "(bal, splits)" name]
    by (simp only: shareOf_wildcard [OF assms(1)] fst_conv)
  have ex: "calculateExpensesWithSubgroups [''Alice'', ''Bob'', ''Carol''] []
          [[Str ''Item'', Str ''Paid By'', Str ''Amount'', Str ''Split Between''],
           [Str ''Lunch'', Str ''Alice'', Num 90, Str ''*'']]
        = Inr \<lparr> outPerItemSplits = [(Str ''Lunch'', [(''alice'', 60), (''bob'', - 30), (''carol'', - 30)])],
                outBalances = [(''alice'', 60), (''bob'', - 30), (''carol'', - 30)],
                outGroupBalances = [(Some ''alice'', 60), (Some ''bob'', - 30), (Some ''carol'', - 30)],
                outSubgroupTransactions = [(''Bob'', ''Alice'', 30), (''Carol'', ''Alice'', 30)],
                outMemberTransactions = [(''Bob'', ''Alice'', 30), (''Carol'', ''Alice'', 30)] \<rparr>"
    by code_simp
  have "\<exists>bal' splits'.
          processRow ic pc ac sc allMembers (bal, splits) row = Inr (bal', splits') \<and>
          (\<forall>name. valueOr0 bal' name
                   = valueOr0 bal name
                     - (if name \<in> set allMembers then amount / of_nat (length allMembers) else 0)
                     + (if name = toLowerCase (trim payer) then amount else 0))"
    using run bal
    by (metis prod.collapse)
  with gp ex show ?thesis by blast
qed

theorem wildcard_split_witness:
  "distinct [''alice'', ''bob''] \<and> [''alice'', ''bob''] \<noteq> []
   \<and> cellAt [Str ''Tea'', Str ''Bob'', Num 8, Str '' * ''] 3 = Str '' * ''
   \<and> trim '' * '' = ''*''
   \<and> truthy (cellAt [Str ''Tea'', Str ''Bob'', Num 8, Str '' * ''] 0)
   \<and> cellAt [Str ''Tea'', Str ''Bob'', Num 8, Str '' * ''] 1 = Str ''Bob'' \<and> ''Bob'' \<noteq> []
   \<and> parseFloat (cellAt [Str ''Tea'', Str ''Bob'', Num 8, Str '' * ''] 2) = Some 8
   \<and> (\<exists>bal' splits'.
          processRow 0 1 2 3 [''alice'', ''bob''] ([(''alice'', 1), (''bob'', - 1)], [])
            [Str ''Tea'', Str ''Bob'', Num 8, Str '' * ''] = Inr (bal', splits') \<and>
          (\<forall>name. valueOr0 bal' name
                   = valueOr0 [(''alice'', 1), (''bob'', - 1)] name
                     - (if name \<in> set [''alice'', ''bob'']
                        then 8 / of_nat (length [''alice'', ''bob'']) else 0)
                     + (if name = toLowerCase (trim ''Bob'') then 8 else 0)))"
proof -
  have h1: "distinct [''alice'', ''bob'']" by simp
  have h2: "[''alice'', ''bob''] \<noteq> []" by simp
  have h3: "cellAt [Str ''Tea'', Str ''Bob'', Num 8, Str '' * ''] 3 = Str '' * ''"
    by (simp add: cellAt_def)
  have h4: "trim '' * '' = ''*''" by (simp add: trim_def isWhiteSpace_def)
  have h5: "truthy (cellAt [Str ''Tea'', Str ''Bob'', Num 8, Str '' * ''] 0)"
    by (simp add: cellAt_def)
  have h6: "cellAt [Str ''Tea'', Str ''Bob'', Num 8, Str '' * ''] 1 = Str ''Bob''"
    by (simp add: cellAt_def)
  have h7: "''Bob'' \<noteq> []" by simp
  have h8: "parseFloat (cellAt [Str ''Tea'', Str ''Bob'', Num 8, Str '' * ''] 2) = Some 8"
    by (simp add: cellAt_def)
  note c = wildcard_split [OF h1 h2 h3 h4 h5 h6 h7 h8,
      of "[(''alice'', 1), (''bob'', - 1)]" "[]"]
  from c have "\<exists>bal' splits'.
          processRow 0 1 2 3 [''alice'', ''bob''] ([(''alice'', 1), (''bob'', - 1)], [])
            [Str ''Tea'', Str ''Bob'', Num 8, Str '' * ''] = Inr (bal', splits') \<and>
          (\<forall>name. valueOr0 bal' name
                   = valueOr0 [(''alice'', 1), (''bob'', - 1)] name
                     - (if name \<in> set [''alice'', ''bob'']
                        then 8 / of_nat (length [''alice'', ''bob'']) else 0)
                     + (if name = toLowerCase (trim ''Bob'') then 8 else 0))"
    by (rule conjunct1 [OF conjunct2])
  with h1 h2 h3 h4 h5 h6 h7 h8 show ?thesis by (intro conjI)
qed

section \<open>Weighted split\<close>

text \<open>
  Claim C7. When a row is processed, with the participants \<open>(m\<^sub>1, w\<^sub>1), \<dots>, (m\<^sub>k, w\<^sub>k)\<close>
  and \<open>totalWeight\<close> the sum of the weights, the balance of each participant and its share
  on the item of the row fall by \<open>amount * (w\<^sub>i / totalWeight)\<close>, and the balance of the
  payer and its share on the item rise by the amount, whether the payer is a participant or
  not; no other name changes. An expense of 100 paid by Bob and split as
  \<^verbatim>\<open>Alice:3,Bob:1\<close> gives Alice -75 and Bob +75, on the item and in the balances.
\<close>

theorem weighted_split:
  assumes "distinct allMembers"
    and "truthy (cellAt row ic)" and "cellAt row pc = Str payer" and "payer \<noteq> []"
    and "parseFloat (cellAt row ac) = Some amount"
    and "getParticipants (cellAt row sc) allMembers = Inr participants"
    and "participants \<noteq> []"
  shows "(\<exists>bal' splits'.
          processRow ic pc ac sc allMembers (bal, splits) row = Inr (bal', splits') \<and>
          (\<forall>name. valueOr0 bal' name
                   = valueOr0 bal name
                     - (case map_of participants name of
                          None \<Rightarrow> 0
                        | Some weight \<Rightarrow> amount * (weight / sum_list (map snd participants)))
                     + (if name = toLowerCase (trim payer) then amount else 0)) \<and>
          (\<forall>name. memberShare splits' (cellAt row ic) name
                   = memberShare splits (cellAt row ic) name
                     - (case map_of participants name of
                          None \<Rightarrow> 0
                        | Some weight \<Rightarrow> amount * (weight / sum_list (map snd participants)))
                     + (if name = toLowerCase (trim payer) then amount else 0)))
    \<and> processExpenses
          [[Str ''Item'', Str ''Paid By'', Str ''Amount'', Str ''Split Between''],
           [Str ''Taxi'', Str ''Bob'', Num 100, Str ''Alice:3,Bob:1'']]
          0 1 2 3 [''alice'', ''bob''] (initBalances [''alice'', ''bob'']) []
        = Inr ([(''alice'', - 75), (''bob'', 75)],
               [(Str ''Taxi'', [(''alice'', - 75), (''bob'', 75)])])"
proof -
  let ?st = "allocate (cellAt row ic) (toLowerCase (trim payer)) amount participants (bal, splits)"
  have d: "distinct (map fst participants)"
    using getParticipants_distinct [OF assms(1,6)] .
  have run: "processRow ic pc ac sc allMembers (bal, splits) row = Inr (fst ?st, snd ?st)"
    using processRow_valid [OF assms(2,3,4,5,6,7)] by simp
  have b: "valueOr0 (fst ?st) name
           = valueOr0 bal name
             - (case map_of participants name of
                  None \<Rightarrow> 0
                | Some weight \<Rightarrow> amount * (weight / sum_list (map snd participants)))
             + (if name = toLowerCase (trim payer) then amount else 0)" for name
    using allocate_balance [OF d, of "cellAt row ic" "toLowerCase (trim payer)" amount "(bal, splits)" name]
    by (simp only: shareOf_def fst_conv)
  have s: "memberShare (snd ?st) (cellAt row ic) name
           = memberShare splits (cellAt row ic) name
             - (case map_of participants name of
                  None \<Rightarrow> 0
                | Some weight \<Rightarrow> amount * (weight / sum_list (map snd participants)))
             + (if name = toLowerCase (trim payer) then amount else 0)" for name
    using allocate_share [OF d, of "cellAt row ic" "toLowerCase (trim payer)" amount "(bal, splits)"
        "cellAt row ic" name]
    by (simp add: shareOf_def)
  have ex: "processExpenses
          [[Str ''Item'', Str ''Paid By'', Str ''Amount'', Str ''Split Between''],
           [Str ''Taxi'', Str ''Bob'', Num 100, Str ''Alice:3,Bob:1'']]
          0 1 2 3 [''alice'', ''bob''] (initBalances [''alice'', ''bob'']) []
        = Inr ([(''alice'', - 75), (''bob'', 75)],
               [(Str ''Taxi'', [(''alice'', - 75), (''bob'', 75)])])"
    by code_simp
  from run b s ex show ?thesis by blast
qed

theorem weighted_split_witness:
  "distinct [''alice'']
   \<and> truthy (cellAt [Str ''Taxi'', Str ''Bob'', Num 100, Str ''Alice:3,Bob:1''] 0)
   \<and> cellAt [Str ''Taxi'', Str ''Bob'', Num 100, Str ''Alice:3,Bob:1''] 1 = Str ''Bob''
   \<and> ''Bob'' \<noteq> []
   \<and> parseFloat (cellAt [Str ''Taxi'', Str ''Bob'', Num 100, Str ''Alice:3,Bob:1''] 2) = Some 100
   \<and> getParticipants (cellAt [Str ''Taxi'', Str ''Bob'', Num 100, Str ''Alice:3,Bob:1''] 3) [''alice'']
       = Inr [(''alice'', 3), (''bob'', 1)]
   \<and> [(''alice'', 3), (''bob'', 1 :: rat)] \<noteq> []
   \<and> (\<exists>bal' splits'.
          processRow 0 1 2 3 [''alice''] ([(''alice'', 0)], [])
            [Str ''Taxi'', Str ''Bob'', Num 100, Str ''Alice:3,Bob:1''] = Inr (bal', splits') \<and>
          (\<forall>name. valueOr0 bal' name
                   = valueOr0 [(''alice'', 0)] name
                     - (case map_of [(''alice'', 3), (''bob'', 1)] name of
                          None \<Rightarrow> 0
                        | Some weight \<Rightarrow> 100 * (weight / sum_list (map snd [(''alice'', 3), (''bob'', 1)])))
                     + (if name = toLowerCase (trim ''Bob'') then 100 else 0)) \<and>
          (\<forall>name. memberShare splits' (cellAt [Str ''Taxi'', Str ''Bob'', Num 100, Str ''Alice:3,Bob:1''] 0) name
                   = memberShare [] (cellAt [Str ''Taxi'', Str ''Bob'', Num 100, Str ''Alice:3,Bob:1''] 0) name
                     - (case map_of [(''alice'', 3), (''bob'', 1)] name of
                          None \<Rightarrow> 0
                        | Some weight \<Rightarrow> 100 * (weight / sum_list (map snd [(''alice'', 3), (''bob'', 1)])))
                     + (if name = toLowerCase (trim ''Bob'') then 100 else 0)))"
proof -
  have h1: "distinct [''alice'']" by simp
  have h2: "truthy (cellAt [Str ''Taxi'', Str ''Bob'', Num 100, Str ''Alice:3,Bob:1''] 0)"
    by (simp add: cellAt_def)
  have h3: "cellAt [Str ''Taxi'', Str ''Bob'', Num 100, Str ''Alice:3,Bob:1''] 1 = Str ''Bob''"
    by (simp add: cellAt_def)
  have h4: "''Bob'' \<noteq> []" by simp
  have h5: "parseFloat (cellAt [Str ''Taxi'', Str ''Bob'', Num 100, Str ''Alice:3,Bob:1''] 2) = Some 100"
    by (simp add: cellAt_def)
  have h6: "getParticipants (cellAt [Str ''Taxi'', Str ''Bob'', Num 100, Str ''Alice:3,Bob:1''] 3) [''alice'']
       = Inr [(''alice'', 3), (''bob'', 1)]"
    by code_simp
  have h7: "[(''alice'', 3), (''bob'', 1 :: rat)] \<noteq> []" by simp
  note c = weighted_split [OF h1 h2 h3 h4 h5 h6 h7, of "[(''alice'', 0)]" "[]"]
  from c [THEN conjunct1] h1 h2 h3 h4 h5 h6 h7 show ?thesis by (intro conjI)
qed

section \<open>Names that are no members\<close>



lemma unknown_name_example:
  "processExpenses
     [[], [Str ''Tea'', Str ''Zed'', Str ''12'', Str ''alice, bbo:2'']]
     0 1 2 3 [''alice'', ''bob''] (initBalances [''alice'', ''bob'']) []
   = Inr ([(''alice'', - 4), (''bob'', 0), (''bbo'', - 8), (''zed'', 12)],
          [(Str ''Tea'', [(''alice'', - 4), (''bbo'', - 8), (''zed'', 12)])])"
  by code_simp

section \<open>Rows that are skipped\<close>

lemma processRows_append:
  "processRows ic pc ac sc allMembers st (rows @ rows')
   = (case processRows ic pc ac sc allMembers st rows of
        Inl e \<Rightarrow> Inl e
      | Inr st' \<Rightarrow> processRows ic pc ac sc allMembers st' rows')"
  by (induction rows arbitrary: st) (auto split: sum.splits)

lemma processRow_skip:
  assumes "\<not> truthy (cellAt row ic) \<or> \<not> truthy (cellAt row pc)
           \<or> parseFloat (cellAt row ac) = None
           \<or> ((\<exists>s. cellAt row pc = Str s) \<and> getParticipants (cellAt row sc) allMembers = Inr [])"
  shows "processRow ic pc ac sc allMembers st row = Inr st"
  using assms
  by (auto simp: processRow_def Let_def split: option.splits)

text \<open>
  Claim C5, as the program has it. A row is skipped, with no change to the balances and to
  the per-item splits, when its item is missing (not a true value), when its payer is
  missing, when its amount does not parse to a number, and, the payer being a text, when
  the resolved list of participants is empty. The rows after it are processed as if it
  were not there. The test on the amount is \<^verbatim>\<open>isNaN\<close> alone: an amount that parses to
  zero or to a negative number is allocated like any other.
\<close>

theorem row_skip_policy:
  assumes "\<not> truthy (cellAt row ic) \<or> \<not> truthy (cellAt row pc)
           \<or> parseFloat (cellAt row ac) = None
           \<or> ((\<exists>s. cellAt row pc = Str s) \<and> getParticipants (cellAt row sc) allMembers = Inr [])"
  shows "processRow ic pc ac sc allMembers (bal, splits) row = Inr (bal, splits)
    \<and> processExpenses (header # before @ row # after) ic pc ac sc allMembers bal splits
        = processExpenses (header # before @ after) ic pc ac sc allMembers bal splits"
proof -
  have skip: "processRow ic pc ac sc allMembers st row = Inr st" for st
    using assms by (rule processRow_skip)
  have "processRows ic pc ac sc allMembers (bal, splits) (before @ row # after)
        = processRows ic pc ac sc allMembers (bal, splits) (before @ after)"
    by (simp add: processRows_append skip split: sum.splits)
  then show ?thesis using skip by (simp add: processExpenses_def)
qed

theorem row_skip_policy_witness:
  "parseFloat (cellAt [Str ''Tea'', Str ''Bob'', Str ''n/a'', Str ''*''] 2) = None
   \<and> processRow 0 1 2 3 [''alice'', ''bob''] ([(''alice'', 0), (''bob'', 0)], [])
        [Str ''Tea'', Str ''Bob'', Str ''n/a'', Str ''*'']
       = Inr ([(''alice'', 0), (''bob'', 0)], [])
   \<and> processExpenses
        ([Str ''item'', Str ''paid by'', Str ''amount'', Str ''split between'']
         # [] @ [Str ''Tea'', Str ''Bob'', Str ''n/a'', Str ''*'']
         # [[Str ''Lunch'', Str ''Alice'', Num 6, Str ''*'']])
        0 1 2 3 [''alice'', ''bob''] [(''alice'', 0), (''bob'', 0)] []
       = processExpenses
        ([Str ''item'', Str ''paid by'', Str ''amount'', Str ''split between'']
         # [] @ [[Str ''Lunch'', Str ''Alice'', Num 6, Str ''*'']])
        0 1 2 3 [''alice'', ''bob''] [(''alice'', 0), (''bob'', 0)] []"
proof -
  have nan: "parseFloat (cellAt [Str ''Tea'', Str ''Bob'', Str ''n/a'', Str ''*''] 2) = None"
    by code_simp
  then have h: "\<not> truthy (cellAt [Str ''Tea'', Str ''Bob'', Str ''n/a'', Str ''*''] 0)
    \<or> \<not> truthy (cellAt [Str ''Tea'', Str ''Bob'', Str ''n/a'', Str ''*''] 1)
    \<or> parseFloat (cellAt [Str ''Tea'', Str ''Bob'', Str ''n/a'', Str ''*''] 2) = None
    \<or> ((\<exists>s. cellAt [Str ''Tea'', Str ''Bob'', Str ''n/a'', Str ''*''] 1 = Str s)
        \<and> getParticipants (cellAt [Str ''Tea'', Str ''Bob'', Str ''n/a'', Str ''*''] 3)
              [''alice'', ''bob''] = Inr [])"
    by blast
  note c = row_skip_policy [OF h, of "[(''alice'', 0), (''bob'', 0)]" "[]"
      "[Str ''item'', Str ''paid by'', Str ''amount'', Str ''split between'']" "[]"
      "[[Str ''Lunch'', Str ''Alice'', Num 6, Str ''*'']]"]
  from nan c show ?thesis by (intro conjI) blast+
qed

text \<open>
  The claim as it is written fails on two rows. The amount \<^verbatim>\<open>-5\<close> is no positive number,
  and its row is allocated. A payer that is a number has no \<^verbatim>\<open>trim\<close>: the row, whose split
  cell is empty, throws and ends the run.
\<close>

theorem row_skip_policy_counterexample:
  "parseFloat (Str ''-5'') = Some (- 5)
   \<and> processExpenses
        [[Str ''item'', Str ''paid by'', Str ''amount'', Str ''split between''],
         [Str ''Refund'', Str ''Alice'', Str ''-5'', Str ''bob'']]
        0 1 2 3 [''alice'', ''bob''] [(''alice'', 0), (''bob'', 0)] []
       = Inr ([(''alice'', - 5), (''bob'', 5)], [(Str ''Refund'', [(''bob'', 5), (''alice'', - 5)])])
   \<and> getParticipants (Str '''') [''alice'', ''bob''] = Inr []
   \<and> processExpenses
        [[Str ''item'', Str ''paid by'', Str ''amount'', Str ''split between''],
         [Str ''Tea'', Num 7, Str ''12'', Str ''''],
         [Str ''Lunch'', Str ''Alice'', Str ''10'', Str ''*'']]
        0 1 2 3 [''alice'', ''bob''] [(''alice'', 0), (''bob'', 0)] []
       = Inl TypeError"
  by code_simp


section \<open>Blank names\<close>

text \<open>
  Claim C9, evaluated. The members list is filtered for true cells before the names are
  trimmed, and the payer is tested before it is trimmed: a cell of blanks passes both
  tests and becomes the member with the empty name, a key of the balances. The entry
  \<^verbatim>\<open>:2\<close> of a split list does the same. (The subgroup lists and the split entries are
  trimmed first and filtered after.)
\<close>

theorem blank_name_becomes_member:
  "allMembersOf [''Alice'', ''   ''] = [''alice'', '''']
   \<and> initBalances (allMembersOf [''Alice'', ''   '']) = [(''alice'', 0), ('''', 0)]
   \<and> processExpenses
        [[Str ''item'', Str ''paid by'', Str ''amount'', Str ''split between''],
         [Str ''Tea'', Str ''  '', Num 6, Str ''alice'']]
        0 1 2 3 [''alice''] (initBalances [''alice'']) []
       = Inr ([(''alice'', - 6), ('''', 6)], [(Str ''Tea'', [(''alice'', - 6), ('''', 6)])])
   \<and> getParticipants (Str ''alice, :2'') [''alice''] = Inr [(''alice'', 1), ('''', 2)]"
  by code_simp

section \<open>Columns that are not found\<close>

text \<open>
  Claim C4, evaluated. \<^verbatim>\<open>getColumnIndexesExpenses\<close> returns \<^verbatim>\<open>-1\<close> for a header that
  is not there, and nothing tests the four indexes. Without the amount column every
  row reads \<^verbatim>\<open>undefined\<close> as its amount and is skipped; the run goes on to the writers
  with balances of zero and no transaction.
\<close>

theorem missing_column_is_not_reported:
  "amountColIndex (getColumnIndexesExpenses
      (headersOf [Str ''Item'', Str ''Paid By'', Str ''Split Between''])) = - 1
   \<and> calculateExpensesWithSubgroups [''Alice'', ''Bob''] []
        [[Str ''Item'', Str ''Paid By'', Str ''Split Between''],
         [Str ''Lunch'', Str ''Alice'', Str ''*'']]
       = Inr \<lparr> outPerItemSplits = [],
               outBalances = [(''alice'', 0), (''bob'', 0)],
               outGroupBalances = [(Some ''alice'', 0), (Some ''bob'', 0)],
               outSubgroupTransactions = [],
               outMemberTransactions = [] \<rparr>"
  by code_simp

section \<open>Doubles\<close>

lemma roundEven_near: "\<bar>of_int (roundEven m) - m\<bar> \<le> 1 / 2"
proof -
  have "of_int \<lfloor>m\<rfloor> \<le> m" "m < of_int \<lfloor>m\<rfloor> + 1" by linarith+
  then show ?thesis by (auto simp: roundEven_def Let_def)
qed

lemma roundEven_bounds: "\<lfloor>m\<rfloor> \<le> roundEven m \<and> roundEven m \<le> \<lfloor>m\<rfloor> + 1"
  by (simp add: roundEven_def Let_def)

lemma binade_bounds:
  assumes "0 < a"
  shows "2 powi (binade a) \<le> a \<and> a < 2 powi (binade a + 1)"
proof -
  obtain p q where pq: "quotient_of a = (p, q)" by (cases "quotient_of a")
  have q: "0 < q" using pq by (rule quotient_of_denom_pos)
  have a: "a = of_int p / of_int q" using pq by (rule quotient_of_div)
  have p: "0 < p" using assms q unfolding a by (simp add: zero_less_divide_iff)
  let ?e = "bitlen p - bitlen q"
  have p1: "1 \<le> bitlen p" using p bitlen_eq_zero_iff [of p] bitlen_nonneg [of p] by linarith
  have q1: "1 \<le> bitlen q" using q bitlen_eq_zero_iff [of q] bitlen_nonneg [of q] by linarith
  have plow: "(2::rat) ^ nat (bitlen p - 1) \<le> of_int p"
    using bitlen_bounds [OF p] by (metis of_int_le_iff of_int_numeral of_int_power)
  have pup: "of_int p < (2::rat) ^ nat (bitlen p)"
    using bitlen_bounds [OF p] by (metis of_int_less_iff of_int_numeral of_int_power)
  have qlow: "(2::rat) ^ nat (bitlen q - 1) \<le> of_int q"
    using bitlen_bounds [OF q] by (metis of_int_le_iff of_int_numeral of_int_power)
  have qup: "of_int q < (2::rat) ^ nat (bitlen q)"
    using bitlen_bounds [OF q] by (metis of_int_less_iff of_int_numeral of_int_power)
  have qpos: "(0::rat) < of_int q" and ppos: "(0::rat) < of_int p" using p q by simp_all
  have "(2::rat) powi (?e - 1) = 2 powi (bitlen p - 1) / 2 powi (bitlen q)"
    using power_int_diff [of "2::rat" "bitlen p - 1" "bitlen q"] by (simp add: algebra_simps)
  also have "\<dots> = 2 ^ nat (bitlen p - 1) / 2 ^ nat (bitlen q)"
    using p1 q1 by (simp add: power_int_def)
  also have "\<dots> \<le> of_int p / 2 ^ nat (bitlen q)"
    using plow by (simp add: divide_right_mono)
  also have "\<dots> \<le> of_int p / of_int q"
    using qup qpos ppos by (simp add: divide_left_mono)
  finally have low: "(2::rat) powi (?e - 1) \<le> a" unfolding a .
  have "of_int p / of_int q < (2::rat) ^ nat (bitlen p) / of_int q"
    using pup qpos by (simp add: divide_strict_right_mono)
  also have "\<dots> \<le> 2 ^ nat (bitlen p) / 2 ^ nat (bitlen q - 1)"
    using qlow qpos by (intro divide_left_mono) (simp_all add: zero_less_mult_iff)
  also have "\<dots> = 2 powi (bitlen p) / 2 powi (bitlen q - 1)"
    using p1 q1 by (simp add: power_int_def)
  also have "\<dots> = 2 powi (?e + 1)"
    using power_int_diff [of "2::rat" "bitlen p" "bitlen q - 1"] by (simp add: algebra_simps)
  finally have up: "a < 2 powi (?e + 1)" unfolding a .
  show ?thesis
  proof (cases "2 powi ?e \<le> a")
    case True
    then have "binade a = ?e" by (simp add: binade_def pq Let_def)
    with True up show ?thesis by simp
  next
    case False
    then have "binade a = ?e - 1" by (simp add: binade_def pq Let_def)
    with False low show ?thesis by simp
  qed
qed

text \<open>
  A positive number goes to a number with a significand of 53 bits that is at most half
  a unit of the last place away.
\<close>

lemma toDouble_form:
  assumes a: "0 < a"
  shows "\<exists>n e. toDouble a = of_int n * 2 powi e \<and> 2 ^ 52 \<le> n \<and> n \<le> 2 ^ 53
               \<and> \<bar>toDouble a - a\<bar> * 2 \<le> 2 powi e \<and> 2 powi e * 2 ^ 52 \<le> a"
proof -
  define e where "e = binade a - 52"
  define s :: rat where "s = 2 powi e"
  define n where "n = roundEven (a / s)"
  have s: "0 < s" by (simp add: s_def)
  have td: "toDouble a = of_int n * s"
    using a by (simp add: toDouble_def Let_def e_def s_def n_def)
  have "toDouble a - a = (of_int n - a / s) * s"
    unfolding td using s by (simp add: algebra_simps)
  then have "\<bar>toDouble a - a\<bar> = \<bar>of_int n - a / s\<bar> * s"
    using s by (simp add: abs_mult)
  also have "\<dots> \<le> 1 / 2 * s"
    using roundEven_near [of "a / s"] s unfolding n_def by (simp add: mult_right_mono)
  finally have err: "\<bar>toDouble a - a\<bar> * 2 \<le> s" by simp
  have "s * 2 ^ 52 = 2 powi e * 2 powi 52" by (simp add: s_def)
  also have "\<dots> = 2 powi (binade a)"
    unfolding e_def using power_int_add [of "2::rat" "binade a - 52" 52] by simp
  finally have s52: "s * 2 ^ 52 = 2 powi (binade a)" .
  have "s * 2 ^ 53 = 2 powi e * 2 powi 53" by (simp add: s_def)
  also have "\<dots> = 2 powi (e + 53)"
    using power_int_add [of "2::rat" e 53] by simp
  also have "e + 53 = binade a + 1" by (simp add: e_def)
  finally have s53: "s * 2 ^ 53 = 2 powi (binade a + 1)" .
  have low: "s * 2 ^ 52 \<le> a" and up: "a < s * 2 ^ 53"
    unfolding s52 s53 using binade_bounds [OF a] by simp_all
  have mlow: "2 ^ 52 \<le> a / s" using low s by (simp add: pos_le_divide_eq mult.commute)
  have mup: "a / s < 2 ^ 53" using up s by (simp add: pos_divide_less_eq mult.commute)
  have "(2::int) ^ 52 \<le> \<lfloor>a / s\<rfloor>"
    using mlow by (simp add: le_floor_iff)
  then have nlow: "2 ^ 52 \<le> n" using roundEven_bounds [of "a / s"] unfolding n_def by linarith
  have "\<lfloor>a / s\<rfloor> < (2::int) ^ 53"
    using mup by (simp add: floor_less_iff)
  then have nup: "n \<le> 2 ^ 53" using roundEven_bounds [of "a / s"] unfolding n_def by linarith
  from td nlow nup err low show ?thesis unfolding s_def by blast
qed

lemma toDouble_zero [simp]: "toDouble 0 = 0"
  by (simp add: toDouble_def)

lemma toDouble_minus: "toDouble (- x) = - toDouble x"
  by (simp add: toDouble_def Let_def)

lemma toDouble_error_pos:
  assumes a: "0 < a"
  shows "\<bar>toDouble a - a\<bar> * 2 ^ 53 \<le> a"
proof -
  obtain n :: int and e :: int
    where err: "\<bar>toDouble a - a\<bar> * 2 \<le> 2 powi e" and low: "2 powi e * 2 ^ 52 \<le> a"
    using toDouble_form [OF a] by blast
  have "\<bar>toDouble a - a\<bar> * 2 * 2 ^ 52 \<le> 2 powi e * 2 ^ 52"
    using err by (simp only: mult_right_mono zero_le_numeral zero_le_power)
  then show ?thesis using low by simp
qed

lemma toDouble_error: "\<bar>toDouble x - x\<bar> * 2 ^ 53 \<le> \<bar>x\<bar>"
proof -
  consider "x = 0" | "0 < x" | "0 < - x" by linarith
  then show ?thesis
  proof cases
    case 1
    then show ?thesis by simp
  next
    case 2
    then show ?thesis using toDouble_error_pos [of x] by simp
  next
    case 3
    have "\<bar>toDouble x - x\<bar> = \<bar>toDouble (- x) - (- x)\<bar>"
      unfolding toDouble_minus by simp
    then show ?thesis using toDouble_error_pos [OF 3] 3 by simp
  qed
qed

lemma toDouble_significand:
  assumes "x \<noteq> 0"
  shows "\<exists>n e. toDouble x = of_int n * 2 powi e \<and> 2 ^ 52 \<le> \<bar>n\<bar> \<and> \<bar>n\<bar> \<le> 2 ^ 53
               \<and> \<bar>toDouble x - x\<bar> * 2 \<le> 2 powi e"
proof (cases "0 < x")
  case True
  then obtain n e where "toDouble x = of_int n * 2 powi e" "2 ^ 52 \<le> n" "n \<le> 2 ^ 53"
      "\<bar>toDouble x - x\<bar> * 2 \<le> 2 powi e"
    using toDouble_form [of x] by blast
  moreover from this have "\<bar>n\<bar> = n" by simp
  ultimately show ?thesis by metis
next
  case False
  then have neg: "0 < - x" using assms by simp
  then obtain n e where n: "toDouble (- x) = of_int n * 2 powi e" "2 ^ 52 \<le> n" "n \<le> 2 ^ 53"
      "\<bar>toDouble (- x) - (- x)\<bar> * 2 \<le> 2 powi e"
    using toDouble_form [of "- x"] by blast
  have 1: "toDouble x = of_int (- n) * 2 powi e"
    using n(1) unfolding toDouble_minus by simp
  have 2: "\<bar>- n\<bar> = n" using n(2) by simp
  have "\<bar>toDouble x - x\<bar> = \<bar>toDouble (- x) - (- x)\<bar>"
    unfolding toDouble_minus by simp
  then have 3: "\<bar>toDouble x - x\<bar> * 2 \<le> 2 powi e" using n(4) by simp
  show ?thesis
    using 1 2 3 n(2,3) by (intro exI [of _ "- n"] exI [of _ e]) simp
qed

lemma toDouble_pos: "0 < x \<Longrightarrow> 0 < toDouble x"
proof -
  assume x: "0 < x"
  have "\<bar>toDouble x - x\<bar> * 2 ^ 53 \<le> x" using toDouble_error [of x] x by simp
  moreover have "x < x * 2 ^ 53" using x by simp
  ultimately have "\<bar>toDouble x - x\<bar> * 2 ^ 53 < x * 2 ^ 53" by linarith
  then have "\<bar>toDouble x - x\<bar> < x" by simp
  then show ?thesis by linarith
qed

lemma toDouble_nonneg: "0 \<le> x \<Longrightarrow> 0 \<le> toDouble x"
  using toDouble_pos [of x] by (cases "x = 0") auto

lemma toDouble_nonpos: "x \<le> 0 \<Longrightarrow> toDouble x \<le> 0"
  using toDouble_nonneg [of "- x"] by (simp add: toDouble_minus)

lemma toDouble_below:
  assumes "0 < x"
  shows "x * (1 - 1 / 2 ^ 53) \<le> toDouble x"
proof -
  have "\<bar>toDouble x - x\<bar> * 2 ^ 53 \<le> x" using toDouble_error [of x] assms by simp
  then have "\<bar>toDouble x - x\<bar> \<le> x / 2 ^ 53" by (simp add: pos_le_divide_eq)
  then have "x - x / 2 ^ 53 \<le> toDouble x" by linarith
  then show ?thesis by (simp add: algebra_simps)
qed

text \<open>The double 0.01.\<close>

lemma cent_pos: "0 < toDouble (1 / 100)"
  by code_simp

lemma cent_below_two: "toDouble (1 / 100) < 2 / 100 * (1 - 1 / 2 ^ 53)"
  by code_simp

lemma cent_above_half: "1 / 200 < toDouble (1 / 100)"
  by code_simp

lemma round2_cent: "round2 (toDouble (1 / 100)) = 1 / 100"
  by code_simp

subsection \<open>Rounding to hundredths\<close>

lemma round2_unfold:
  "round2 x = (if x < 0 then - (of_int \<lfloor>(- x) * 100 + 1 / 2\<rfloor> / 100)
               else of_int \<lfloor>x * 100 + 1 / 2\<rfloor> / 100)"
  by (simp only: round2_def)

lemma round2_is_cents: "\<exists>k::int. round2 x = of_int k / 100"
proof (cases "x < 0")
  case True
  then have "round2 x = of_int (- \<lfloor>(- x) * 100 + 1 / 2\<rfloor>) / 100" by (simp add: round2_def)
  then show ?thesis by blast
next
  case False
  then have "round2 x = of_int \<lfloor>x * 100 + 1 / 2\<rfloor> / 100" by (simp add: round2_def)
  then show ?thesis by blast
qed

lemma round2_mono: "x \<le> y \<Longrightarrow> round2 x \<le> round2 y"
proof -
  assume xy: "x \<le> y"
  define kx where "kx = \<lfloor>(- x) * 100 + 1 / 2\<rfloor>"
  define ky where "ky = \<lfloor>(- y) * 100 + 1 / 2\<rfloor>"
  define lx where "lx = \<lfloor>x * 100 + 1 / 2\<rfloor>"
  define ly where "ly = \<lfloor>y * 100 + 1 / 2\<rfloor>"
  have rx: "round2 x = (if x < 0 then - (of_int kx / 100) else of_int lx / 100)"
    unfolding kx_def lx_def by (rule round2_unfold)
  have ry: "round2 y = (if y < 0 then - (of_int ky / 100) else of_int ly / 100)"
    unfolding ky_def ly_def by (rule round2_unfold)
  have k: "ky \<le> kx" unfolding kx_def ky_def using xy by (intro floor_mono) simp
  have l: "lx \<le> ly" unfolding lx_def ly_def using xy by (intro floor_mono) simp
  have kx0: "x < 0 \<Longrightarrow> 0 \<le> kx" unfolding kx_def by (simp add: zero_le_floor)
  have ly0: "0 \<le> y \<Longrightarrow> 0 \<le> ly" unfolding ly_def by (simp add: zero_le_floor)
  consider "y < 0" | "x < 0" "0 \<le> y" | "0 \<le> x" using xy by linarith
  then show ?thesis
  proof cases
    case 1
    then have "x < 0" using xy by simp
    moreover have "rat_of_int ky \<le> rat_of_int kx" using k by simp
    ultimately show ?thesis using 1 unfolding rx ry by (simp add: divide_right_mono)
  next
    case 2
    have "(0::rat) \<le> of_int kx" using kx0 2 by simp
    moreover have "(0::rat) \<le> of_int ly" using ly0 2 by simp
    ultimately have "- (rat_of_int kx / 100) \<le> rat_of_int ly / 100" by simp
    then show ?thesis using 2 unfolding rx ry by simp
  next
    case 3
    then have "0 \<le> y" using xy by simp
    moreover have "rat_of_int lx \<le> rat_of_int ly" using l by simp
    ultimately show ?thesis using 3 unfolding rx ry by (simp add: divide_right_mono)
  qed
qed

text \<open>The nearest hundredth, and which one of two.\<close>

lemma round2_nearest:
  "(0 \<le> x \<longrightarrow> x - 1 / 200 < round2 x \<and> round2 x \<le> x + 1 / 200) \<and>
   (x < 0 \<longrightarrow> x - 1 / 200 \<le> round2 x \<and> round2 x < x + 1 / 200)"
proof -
  define k where "k = \<lfloor>(- x) * 100 + 1 / 2\<rfloor>"
  define l where "l = \<lfloor>x * 100 + 1 / 2\<rfloor>"
  have r: "round2 x = (if x < 0 then - (of_int k / 100) else of_int l / 100)"
    unfolding k_def l_def by (rule round2_unfold)
  have "of_int k \<le> (- x) * 100 + 1 / 2" "(- x) * 100 + 1 / 2 < of_int k + 1"
    unfolding k_def by linarith+
  then have k: "x - 1 / 200 \<le> - (rat_of_int k / 100)" "- (rat_of_int k / 100) < x + 1 / 200"
    by linarith+
  have "of_int l \<le> x * 100 + 1 / 2" "x * 100 + 1 / 2 < of_int l + 1"
    unfolding l_def by linarith+
  then have l: "x - 1 / 200 < rat_of_int l / 100" "rat_of_int l / 100 \<le> x + 1 / 200"
    by linarith+
  show ?thesis unfolding r using k l by simp
qed


lemma round2_small: "0 \<le> r \<Longrightarrow> r < 1 / 200 \<Longrightarrow> round2 r = 0"
proof -
  assume r: "0 \<le> r" "r < 1 / 200"
  then have "0 \<le> r * 100 + 1 / 2" "r * 100 + 1 / 2 < 1" by simp_all
  then have "\<lfloor>r * 100 + 1 / 2\<rfloor> = 0" by linarith
  with r show ?thesis by (simp add: round2_def)
qed

lemma round2_zero [simp]: "round2 0 = 0"
  using round2_small [of 0] by simp


lemma round2_above_cent: "toDouble (1 / 100) \<le> x \<Longrightarrow> 1 / 100 \<le> round2 x"
  using round2_mono [of "toDouble (1 / 100)" x] by (simp add: round2_cent)

text \<open>
  The tests \<^verbatim>\<open>val > 0.01\<close> and \<^verbatim>\<open>val < -0.01\<close> on the double of a rounded balance say
  what they say of the rounded balance.
\<close>

lemma above_cent_iff:
  "toDouble (1 / 100) < toDouble (round2 b) \<longleftrightarrow> 1 / 100 < round2 b"
proof
  assume gt: "1 / 100 < round2 b"
  obtain k :: int where k: "round2 b = of_int k / 100" using round2_is_cents [of b] by blast
  have "1 < k" using gt unfolding k by simp
  then have "2 \<le> k" by simp
  then have "(2::rat) \<le> of_int k" by linarith
  then have two: "2 / 100 \<le> round2 b" unfolding k by simp
  have "2 / 100 * (1 - 1 / 2 ^ 53) \<le> round2 b * (1 - 1 / 2 ^ 53 :: rat)"
    using two by (intro mult_right_mono) simp_all
  also have "\<dots> \<le> toDouble (round2 b)"
    using two by (intro toDouble_below) simp
  finally show "toDouble (1 / 100) < toDouble (round2 b)"
    using cent_below_two by linarith
next
  assume gt: "toDouble (1 / 100) < toDouble (round2 b)"
  obtain k :: int where k: "round2 b = of_int k / 100" using round2_is_cents [of b] by blast
  show "1 / 100 < round2 b"
  proof (rule ccontr)
    assume "\<not> 1 / 100 < round2 b"
    then have "k \<le> 1" unfolding k by simp
    then consider "k = 1" | "k \<le> 0" by linarith
    then show False
    proof cases
      case 1
      then show False using gt unfolding k by simp
    next
      case 2
      then have "round2 b \<le> 0" unfolding k by simp
      then have "toDouble (round2 b) \<le> 0" by (rule toDouble_nonpos)
      then show False using gt cent_pos by linarith
    qed
  qed
qed

lemma below_cent_iff:
  "toDouble (round2 b) < - toDouble (1 / 100) \<longleftrightarrow> round2 b < - (1 / 100)"
proof -
  have m: "round2 (- b) = - round2 b"
  proof (cases "b = 0")
    case True
    then show ?thesis by simp
  next
    case False
    then show ?thesis by (auto simp: round2_def)
  qed
  have "toDouble (round2 b) < - toDouble (1 / 100)
        \<longleftrightarrow> toDouble (1 / 100) < toDouble (round2 (- b))"
    unfolding m toDouble_minus by auto
  also have "\<dots> \<longleftrightarrow> 1 / 100 < round2 (- b)" by (rule above_cent_iff)
  also have "\<dots> \<longleftrightarrow> round2 b < - (1 / 100)" unfolding m by auto
  finally show ?thesis .
qed

section \<open>The settlement loop\<close>

subsection \<open>Sorting by falling amount\<close>

lemma set_sortDesc: "set (sortDesc xs) = set xs"
  by (simp add: sortDesc_def)

lemma mset_sortDesc: "mset (sortDesc xs) = mset xs"
  by (simp add: sortDesc_def)


lemma sortDesc_Nil_iff: "sortDesc xs = [] \<longleftrightarrow> xs = []"
  using set_sortDesc [of xs] by (metis set_empty)





lemma head_sortDesc_max:
  assumes "sortDesc xs = p # ps" and "q \<in> set xs"
  shows "snd q \<le> snd p"
proof -
  have "sorted (map (\<lambda>p. - snd p) (sortDesc xs))"
    unfolding sortDesc_def by (rule sorted_sort_key)
  then have "\<forall>r\<in>set ps. - snd p \<le> - snd r"
    unfolding assms(1) by simp
  moreover have "q = p \<or> q \<in> set ps"
    using assms set_sortDesc [of xs] by auto
  ultimately show ?thesis by auto
qed


lemma wellFormed_sortDesc: "wellFormed (sortDesc xs) \<longleftrightarrow> wellFormed xs"
  by (simp add: wellFormed_def set_sortDesc)

subsection \<open>One transfer\<close>

lemma afterTransfer_unfold:
  "afterTransfer p a rest
   = (if toDouble (snd p - a) < toDouble (1 / 100) then rest
      else (fst p, toDouble (snd p - a)) # rest)"
  by (simp add: afterTransfer_def Let_def)


lemma wellFormed_afterTransfer: "wellFormed rest \<Longrightarrow> wellFormed (afterTransfer p a rest)"
  by (simp add: afterTransfer_unfold wellFormed_def)





subsection \<open>The loop\<close>

lemma settleLoop_Nil: "debtors = [] \<or> creditors = [] \<Longrightarrow> settleLoop debtors creditors = []"
  by (subst settleLoop.simps) simp

lemma settleLoop_step:
  assumes "sortDesc debtors = debtor # ds" and "sortDesc creditors = creditor # cs"
  shows "settleLoop debtors creditors
         = (fst debtor, fst creditor, round2 (min (snd debtor) (snd creditor)))
           # settleLoop (afterTransfer debtor (min (snd debtor) (snd creditor)) ds)
                        (afterTransfer creditor (min (snd debtor) (snd creditor)) cs)"
proof -
  have "debtors \<noteq> []"
    using assms(1) sortDesc_Nil_iff [of debtors] by auto
  moreover have "creditors \<noteq> []"
    using assms(2) sortDesc_Nil_iff [of creditors] by auto
  ultimately show ?thesis
    by (subst settleLoop.simps) (simp add: assms Let_def)
qed




subsection \<open>The two lists at the start\<close>


lemma debtorsOf_filter:
  "(\<not> toDouble (round2 b) > toDouble (1 / 100) \<and> toDouble (round2 b) < - toDouble (1 / 100))
   \<longleftrightarrow> round2 b < - (1 / 100)"
  using below_cent_iff [of b] cent_pos by auto


lemma creditorsOf_alt:
  "creditorsOf bal
   = map (\<lambda>(name, balance). (name, toDouble (round2 balance)))
       (filter (\<lambda>(name, balance). 1 / 100 < round2 balance) bal)"
  unfolding creditorsOf_def by (simp add: above_cent_iff)

lemma debtorsOf_alt:
  "debtorsOf bal
   = map (\<lambda>(name, balance). (name, - toDouble (round2 balance)))
       (filter (\<lambda>(name, balance). round2 balance < - (1 / 100)) bal)"
  unfolding debtorsOf_def debtorsOf_filter ..

lemma wellFormed_creditorsOf: "wellFormed (creditorsOf bal)"
  by (auto simp: wellFormed_def creditorsOf_def)

lemma wellFormed_debtorsOf: "wellFormed (debtorsOf bal)"
  by (auto simp: wellFormed_def debtorsOf_def)

text \<open>One turn of the loop on well-formed lists.\<close>

lemma settleLoop_turn:
  assumes "wellFormed ds" and "wellFormed cs" and "ds \<noteq> []" and "cs \<noteq> []"
  shows "\<exists>debtor ds' creditor cs' amount.
           mset (debtor # ds') = mset ds \<and> mset (creditor # cs') = mset cs \<and>
           (\<forall>p\<in>set ds. snd p \<le> snd debtor) \<and> (\<forall>p\<in>set cs. snd p \<le> snd creditor) \<and>
           amount = min (snd debtor) (snd creditor) \<and> 0 < amount \<and> 0 < round2 amount \<and>
           settleLoop ds cs
             = (fst debtor, fst creditor, round2 amount)
               # settleLoop
                   (if toDouble (snd debtor - amount) < toDouble (1 / 100) then ds'
                    else (fst debtor, toDouble (snd debtor - amount)) # ds')
                   (if toDouble (snd creditor - amount) < toDouble (1 / 100) then cs'
                    else (fst creditor, toDouble (snd creditor - amount)) # cs') \<and>
           (\<forall>p\<in>set (if toDouble (snd debtor - amount) < toDouble (1 / 100) then ds'
                      else (fst debtor, toDouble (snd debtor - amount)) # ds').
              toDouble (1 / 100) \<le> snd p) \<and>
           (\<forall>p\<in>set (if toDouble (snd creditor - amount) < toDouble (1 / 100) then cs'
                      else (fst creditor, toDouble (snd creditor - amount)) # cs').
              toDouble (1 / 100) \<le> snd p)"
proof -
  obtain d ds' c cs' where sd: "sortDesc ds = d # ds'" and sc: "sortDesc cs = c # cs'"
    using assms(3,4) sortDesc_Nil_iff [of ds] sortDesc_Nil_iff [of cs]
    by (metis list.exhaust)
  define a where "a = min (snd d) (snd c)"
  have md: "mset (d # ds') = mset ds" using mset_sortDesc [of ds] sd by simp
  have mc: "mset (c # cs') = mset cs" using mset_sortDesc [of cs] sc by simp
  have wd: "wellFormed (d # ds')" using assms(1) wellFormed_sortDesc [of ds] sd by simp
  have wc: "wellFormed (c # cs')" using assms(2) wellFormed_sortDesc [of cs] sc by simp
  have ca: "toDouble (1 / 100) \<le> a"
    unfolding a_def using wd wc by (simp add: wellFormed_def)
  have pos: "0 < a" using ca cent_pos by linarith
  have rpos: "0 < round2 a" using round2_above_cent [OF ca] by linarith
  have maxd: "\<forall>p\<in>set ds. snd p \<le> snd d" using head_sortDesc_max [OF sd] by blast
  have maxc: "\<forall>p\<in>set cs. snd p \<le> snd c" using head_sortDesc_max [OF sc] by blast
  have wd': "wellFormed (afterTransfer d a ds')"
    using wd by (intro wellFormed_afterTransfer) (simp add: wellFormed_def)
  have wc': "wellFormed (afterTransfer c a cs')"
    using wc by (intro wellFormed_afterTransfer) (simp add: wellFormed_def)
  have eq: "settleLoop ds cs
        = (fst d, fst c, round2 a) # settleLoop (afterTransfer d a ds') (afterTransfer c a cs')"
    using settleLoop_step [OF sd sc] by (simp add: a_def)
  from md mc maxd maxc a_def pos rpos eq wd' wc' show ?thesis
    unfolding afterTransfer_unfold wellFormed_def by blast
qed

section \<open>The greedy settlement\<close>

text \<open>
  Claim C3. The transactions of \<^verbatim>\<open>generateMinimalMemberTransactions\<close> are those of the
  loop, in the order the loop pushes them and with the names capitalized, run on two
  lists: the creditors are the parties whose balance rounded to hundredths is above 0.01,
  each with the double of its rounded balance, the debtors those whose rounded balance is
  below -0.01, each with the double of what it owes; a party whose rounded balance is
  within 0.01 of zero is in neither list. Rounding to hundredths gives the nearest
  multiple of 0.01, the one away from zero of two; the double of a number is a number
  with a significand of 53 bits at most half a unit of the last place away. The loop
  ends when a list is empty. Otherwise, on lists whose amounts are at least the double
  0.01 (which the two lists are at the start), a turn takes a debtor and a creditor with
  the largest amount of their lists and leaves the other parties as they are; it pushes
  the transaction from that debtor to that creditor, with the smaller of the two amounts,
  which is positive, shown to hundredths; it subtracts that amount from both, in
  doubles, and drops a party whose remainder is below the double 0.01; and the loop goes
  on with the lists so left, whose amounts are again at least the double 0.01.
\<close>

theorem greedy_settlement:
  "(generateMinimalMemberTransactions bal
      = map (\<lambda>(debtor, creditor, amount). (capitalize debtor, capitalize creditor, amount))
          (settleLoop
             (map (\<lambda>(name, balance). (name, - toDouble (round2 balance)))
                (filter (\<lambda>(name, balance). round2 balance < - (1 / 100)) bal))
             (map (\<lambda>(name, balance). (name, toDouble (round2 balance)))
                (filter (\<lambda>(name, balance). 1 / 100 < round2 balance) bal)))
    \<and> (\<forall>p\<in>set (map (\<lambda>(name, balance). (name, - toDouble (round2 balance)))
                   (filter (\<lambda>(name, balance). round2 balance < - (1 / 100)) bal)).
          toDouble (1 / 100) \<le> snd p)
    \<and> (\<forall>p\<in>set (map (\<lambda>(name, balance). (name, toDouble (round2 balance)))
                   (filter (\<lambda>(name, balance). 1 / 100 < round2 balance) bal)).
          toDouble (1 / 100) \<le> snd p))
   \<and> ((\<exists>k::int. round2 x = of_int k / 100)
       \<and> (0 \<le> x \<longrightarrow> x - 1 / 200 < round2 x \<and> round2 x \<le> x + 1 / 200)
       \<and> (x < 0 \<longrightarrow> x - 1 / 200 \<le> round2 x \<and> round2 x < x + 1 / 200))
   \<and> (toDouble 0 = 0
       \<and> (x \<noteq> 0 \<longrightarrow>
            (\<exists>n e. toDouble x = of_int n * 2 powi e \<and> 2 ^ 52 \<le> \<bar>n\<bar> \<and> \<bar>n\<bar> \<le> 2 ^ 53
                  \<and> \<bar>toDouble x - x\<bar> * 2 \<le> 2 powi e)))
   \<and> (debtors = [] \<or> creditors = [] \<longrightarrow> settleLoop debtors creditors = [])
   \<and> ((\<forall>p\<in>set debtors. toDouble (1 / 100) \<le> snd p) \<and>
       (\<forall>p\<in>set creditors. toDouble (1 / 100) \<le> snd p) \<and> debtors \<noteq> [] \<and> creditors \<noteq> [] \<longrightarrow>
        (\<exists>debtor ds' creditor cs' amount.
           mset (debtor # ds') = mset debtors \<and> mset (creditor # cs') = mset creditors \<and>
           (\<forall>p\<in>set debtors. snd p \<le> snd debtor) \<and> (\<forall>p\<in>set creditors. snd p \<le> snd creditor) \<and>
           amount = min (snd debtor) (snd creditor) \<and> 0 < amount \<and> 0 < round2 amount \<and>
           settleLoop debtors creditors
             = (fst debtor, fst creditor, round2 amount)
               # settleLoop
                   (if toDouble (snd debtor - amount) < toDouble (1 / 100) then ds'
                    else (fst debtor, toDouble (snd debtor - amount)) # ds')
                   (if toDouble (snd creditor - amount) < toDouble (1 / 100) then cs'
                    else (fst creditor, toDouble (snd creditor - amount)) # cs') \<and>
           (\<forall>p\<in>set (if toDouble (snd debtor - amount) < toDouble (1 / 100) then ds'
                      else (fst debtor, toDouble (snd debtor - amount)) # ds').
              toDouble (1 / 100) \<le> snd p) \<and>
           (\<forall>p\<in>set (if toDouble (snd creditor - amount) < toDouble (1 / 100) then cs'
                      else (fst creditor, toDouble (snd creditor - amount)) # cs').
              toDouble (1 / 100) \<le> snd p)))"
  (is "?A \<and> ?R \<and> ?T \<and> ?F \<and> ?G")
proof -
  have a1: "generateMinimalMemberTransactions bal
      = map (\<lambda>(debtor, creditor, amount). (capitalize debtor, capitalize creditor, amount))
          (settleLoop
             (map (\<lambda>(name, balance). (name, - toDouble (round2 balance)))
                (filter (\<lambda>(name, balance). round2 balance < - (1 / 100)) bal))
             (map (\<lambda>(name, balance). (name, toDouble (round2 balance)))
                (filter (\<lambda>(name, balance). 1 / 100 < round2 balance) bal)))"
    unfolding generateMinimalMemberTransactions_def debtorsOf_alt creditorsOf_alt ..
  have a2: "\<forall>p\<in>set (map (\<lambda>(name, balance). (name, - toDouble (round2 balance)))
                   (filter (\<lambda>(name, balance). round2 balance < - (1 / 100)) bal)).
          toDouble (1 / 100) \<le> snd p"
    using wellFormed_debtorsOf [of bal] unfolding debtorsOf_alt wellFormed_def .
  have a3: "\<forall>p\<in>set (map (\<lambda>(name, balance). (name, toDouble (round2 balance)))
                   (filter (\<lambda>(name, balance). 1 / 100 < round2 balance) bal)).
          toDouble (1 / 100) \<le> snd p"
    using wellFormed_creditorsOf [of bal] unfolding creditorsOf_alt wellFormed_def .
  have a: ?A by (rule conjI [OF a1 conjI [OF a2 a3]])
  have r: ?R using round2_is_cents [of x] round2_nearest [of x] by (intro conjI) simp_all
  have t: ?T using toDouble_significand [of x] by (intro conjI impI) simp_all
  have f: ?F by (rule impI) (rule settleLoop_Nil)
  have g: ?G
  proof (intro impI, elim conjE)
    assume "\<forall>p\<in>set debtors. toDouble (1 / 100) \<le> snd p"
      "\<forall>p\<in>set creditors. toDouble (1 / 100) \<le> snd p" "debtors \<noteq> []" "creditors \<noteq> []"
    then have "wellFormed debtors" "wellFormed creditors" "debtors \<noteq> []" "creditors \<noteq> []"
      by (simp_all add: wellFormed_def)
    then show "\<exists>debtor ds' creditor cs' amount.
           mset (debtor # ds') = mset debtors \<and> mset (creditor # cs') = mset creditors \<and>
           (\<forall>p\<in>set debtors. snd p \<le> snd debtor) \<and> (\<forall>p\<in>set creditors. snd p \<le> snd creditor) \<and>
           amount = min (snd debtor) (snd creditor) \<and> 0 < amount \<and> 0 < round2 amount \<and>
           settleLoop debtors creditors
             = (fst debtor, fst creditor, round2 amount)
               # settleLoop
                   (if toDouble (snd debtor - amount) < toDouble (1 / 100) then ds'
                    else (fst debtor, toDouble (snd debtor - amount)) # ds')
                   (if toDouble (snd creditor - amount) < toDouble (1 / 100) then cs'
                    else (fst creditor, toDouble (snd creditor - amount)) # cs') \<and>
           (\<forall>p\<in>set (if toDouble (snd debtor - amount) < toDouble (1 / 100) then ds'
                      else (fst debtor, toDouble (snd debtor - amount)) # ds').
              toDouble (1 / 100) \<le> snd p) \<and>
           (\<forall>p\<in>set (if toDouble (snd creditor - amount) < toDouble (1 / 100) then cs'
                      else (fst creditor, toDouble (snd creditor - amount)) # cs').
              toDouble (1 / 100) \<le> snd p)"
      by (rule settleLoop_turn)
  qed
  show ?thesis by (rule conjI [OF a conjI [OF r conjI [OF t conjI [OF f g]]]])
qed

theorem greedy_settlement_witness:
  "list_all (\<lambda>p. toDouble (1 / 100) \<le> snd p) [(''c'', 50 :: rat), (''e'', toDouble (2 / 100))]
   \<and> list_all (\<lambda>p. toDouble (1 / 100) \<le> snd p) [(''a'', toDouble (5001 / 100))]
   \<and> [(''c'', 50 :: rat), (''e'', toDouble (2 / 100))] \<noteq> [] \<and> [(''a'', toDouble (5001 / 100))] \<noteq> []
   \<and> (\<exists>debtor ds' creditor cs' amount.
           mset (debtor # ds') = mset [(''c'', 50 :: rat), (''e'', toDouble (2 / 100))] \<and>
           mset (creditor # cs') = mset [(''a'', toDouble (5001 / 100))] \<and>
           (\<forall>p\<in>set [(''c'', 50 :: rat), (''e'', toDouble (2 / 100))]. snd p \<le> snd debtor) \<and>
           (\<forall>p\<in>set [(''a'', toDouble (5001 / 100))]. snd p \<le> snd creditor) \<and>
           amount = min (snd debtor) (snd creditor) \<and> 0 < amount \<and> 0 < round2 amount \<and>
           settleLoop [(''c'', 50 :: rat), (''e'', toDouble (2 / 100))] [(''a'', toDouble (5001 / 100))]
             = (fst debtor, fst creditor, round2 amount)
               # settleLoop
                   (if toDouble (snd debtor - amount) < toDouble (1 / 100) then ds'
                    else (fst debtor, toDouble (snd debtor - amount)) # ds')
                   (if toDouble (snd creditor - amount) < toDouble (1 / 100) then cs'
                    else (fst creditor, toDouble (snd creditor - amount)) # cs') \<and>
           (\<forall>p\<in>set (if toDouble (snd debtor - amount) < toDouble (1 / 100) then ds'
                      else (fst debtor, toDouble (snd debtor - amount)) # ds').
              toDouble (1 / 100) \<le> snd p) \<and>
           (\<forall>p\<in>set (if toDouble (snd creditor - amount) < toDouble (1 / 100) then cs'
                      else (fst creditor, toDouble (snd creditor - amount)) # cs').
              toDouble (1 / 100) \<le> snd p))
   \<and> settleLoop [(''e'', toDouble (2 / 100))] ([] :: (string \<times> rat) list) = []
   \<and> (0 :: rat) \<le> 2675 / 1000 \<and> round2 (2675 / 1000) = 268 / 100
   \<and> 2675 / 1000 - 1 / 200 < round2 (2675 / 1000) \<and> round2 (2675 / 1000) \<le> 2675 / 1000 + 1 / 200
   \<and> (2675 / 1000 :: rat) \<noteq> 0
   \<and> (\<exists>n e. toDouble (2675 / 1000) = of_int n * 2 powi e \<and> 2 ^ 52 \<le> \<bar>n\<bar> \<and> \<bar>n\<bar> \<le> 2 ^ 53
             \<and> \<bar>toDouble (2675 / 1000) - 2675 / 1000\<bar> * 2 \<le> 2 powi e)
   \<and> - (2675 / 1000) < (0 :: rat)
   \<and> - (2675 / 1000) - 1 / 200 \<le> round2 (- (2675 / 1000))
   \<and> round2 (- (2675 / 1000)) < - (2675 / 1000) + 1 / 200
   \<and> generateMinimalMemberTransactions
        [(''a'', 5001 / 100), (''c'', - 50), (''e'', - (2 / 100)), (''f'', 1 / 100)]
      = map (\<lambda>(debtor, creditor, amount). (capitalize debtor, capitalize creditor, amount))
          (settleLoop
             (map (\<lambda>(name, balance). (name, - toDouble (round2 balance)))
                (filter (\<lambda>(name, balance). round2 balance < - (1 / 100))
                   [(''a'', 5001 / 100), (''c'', - 50), (''e'', - (2 / 100)), (''f'', 1 / 100)]))
             (map (\<lambda>(name, balance). (name, toDouble (round2 balance)))
                (filter (\<lambda>(name, balance). 1 / 100 < round2 balance)
                   [(''a'', 5001 / 100), (''c'', - 50), (''e'', - (2 / 100)), (''f'', 1 / 100)])))
   \<and> generateMinimalMemberTransactions
        [(''a'', 5001 / 100), (''c'', - 50), (''e'', - (2 / 100)), (''f'', 1 / 100)]
       = [(''C'', ''A'', 50)]"
proof -
  let ?bal = "[(''a'', 5001 / 100 :: rat), (''c'', - 50), (''e'', - (2 / 100)), (''f'', 1 / 100)]"
  let ?ds = "[(''c'', 50 :: rat), (''e'', toDouble (2 / 100))]"
  let ?cs = "[(''a'', toDouble (5001 / 100))]"
  have l1: "list_all (\<lambda>p. toDouble (1 / 100) \<le> snd p) ?ds" by code_simp
  have l2: "list_all (\<lambda>p. toDouble (1 / 100) \<le> snd p) ?cs" by code_simp
  have h1: "\<forall>p\<in>set ?ds. toDouble (1 / 100) \<le> snd p" using l1 by (simp only: list_all_iff)
  have h2: "\<forall>p\<in>set ?cs. toDouble (1 / 100) \<le> snd p" using l2 by (simp only: list_all_iff)
  have h3: "?ds \<noteq> []" by simp
  have h4: "?cs \<noteq> []" by simp
  have x1: "(0 :: rat) \<le> 2675 / 1000" by simp
  have x2: "(2675 / 1000 :: rat) \<noteq> 0" by simp
  have x3: "- (2675 / 1000) < (0 :: rat)" by simp
  have r: "round2 (2675 / 1000) = 268 / 100" by code_simp
  have out: "generateMinimalMemberTransactions ?bal = [(''C'', ''A'', 50)]" by code_simp
  note g = greedy_settlement [where bal = ?bal and x = "2675 / 1000" and debtors = ?ds
      and creditors = ?cs]
  note g' = greedy_settlement [where bal = ?bal and x = "- (2675 / 1000)"
      and debtors = "[(''e'', toDouble (2 / 100))]" and creditors = "[]"]
  note start = g [THEN conjunct1, THEN conjunct1]
  note near = g [THEN conjunct2, THEN conjunct1, THEN conjunct2, THEN conjunct1, THEN mp, OF x1]
  note near' = g' [THEN conjunct2, THEN conjunct1, THEN conjunct2, THEN conjunct2, THEN mp, OF x3]
  note double = g [THEN conjunct2, THEN conjunct2, THEN conjunct1, THEN conjunct2, THEN mp, OF x2]
  note stop = g' [THEN conjunct2, THEN conjunct2, THEN conjunct2, THEN conjunct1, THEN mp,
      OF disjI2 [OF refl]]
  note turn = g [THEN conjunct2, THEN conjunct2, THEN conjunct2, THEN conjunct2, THEN mp,
      OF conjI [OF h1 conjI [OF h2 conjI [OF h3 h4]]]]
  from l1 l2 h3 h4 turn stop x1 r near [THEN conjunct1] near [THEN conjunct2] x2 double x3
    near' [THEN conjunct1] near' [THEN conjunct2] start out
  show ?thesis by (intro conjI)
qed

section \<open>Settling the balances\<close>






subsection \<open>Sums over the parties\<close>










subsection \<open>Runs that keep the hundredths\<close>













subsection \<open>The amounts of a party in the two lists\<close>











subsection \<open>Every party within 0.01\<close>





subsection \<open>Doubles in range keep the hundredths\<close>













section \<open>The subgroup of a member\<close>

lemma setProp_append: "\<not> hasOwnProperty al k \<Longrightarrow> setProp k v al = al @ [(k, v)]"
  by (induction al) (auto simp: hasOwnProperty_def)

lemma find_append_miss: "\<not> P y \<Longrightarrow> find P (xs @ [y]) = find P xs"
  by (induction xs) auto

lemma find_None_key:
  assumes "find (\<lambda>(key, grp). member \<in> set grp) sm = None"
    and "\<forall>(key, grp)\<in>set sm. key = member \<longrightarrow> key \<in> set grp"
  shows "\<not> hasOwnProperty sm member"
proof
  assume "hasOwnProperty sm member"
  then obtain grp where in_sm: "(member, grp) \<in> set sm"
    by (auto simp: hasOwnProperty_def)
  with assms(2) have "member \<in> set grp" by auto
  with in_sm assms(1) show False
    by (auto simp: find_None_iff)
qed

text \<open>A member that is not in the list keeps what the maps say of it.\<close>

lemma assignMember_other_key:
  "m \<noteq> member \<Longrightarrow>
   map_of (nameToGroupKey (assignMember st member)) m = map_of (nameToGroupKey st) m"
  by (auto simp: assignMember_def map_of_setProp split: option.splits)

lemma assignMember_other_group:
  "m \<noteq> member \<Longrightarrow>
   map_of (subgroupMap (assignMember st member)) m = map_of (subgroupMap st) m"
  by (auto simp: assignMember_def map_of_setProp split: option.splits)

lemma assign_keeps:
  "m \<notin> set ms \<Longrightarrow>
   map_of (nameToGroupKey (foldl assignMember st ms)) m = map_of (nameToGroupKey st) m \<and>
   map_of (subgroupMap (foldl assignMember st ms)) m = map_of (subgroupMap st) m"
proof (induction ms arbitrary: st)
  case Nil
  show ?case by simp
next
  case (Cons x ms)
  then have "m \<noteq> x" "m \<notin> set ms" by auto
  then show ?case
    using Cons.IH [of "assignMember st x"]
    by (simp add: assignMember_other_key assignMember_other_group)
qed

lemma assignMember_subgroupMap:
  assumes "noCollision (subgroupMap st) (member # ms)"
  shows "subgroupMap (assignMember st member)
         = (case firstGroup (subgroupMap st) member of
              Some found \<Rightarrow> subgroupMap st
            | None \<Rightarrow> subgroupMap st @ [(member, [member])])"
proof (cases "firstGroup (subgroupMap st) member")
  case None
  have "\<forall>(key, grp)\<in>set (subgroupMap st). key = member \<longrightarrow> key \<in> set grp"
    using assms by (auto simp: noCollision_def)
  then have "\<not> hasOwnProperty (subgroupMap st) member"
    using None find_None_key [of member "subgroupMap st"] by (simp add: firstGroup_def)
  then show ?thesis
    using None by (simp add: assignMember_def firstGroup_def setProp_append)
next
  case (Some found)
  then show ?thesis
    by (cases found) (simp add: assignMember_def firstGroup_def)
qed

text \<open>
  Where no member has for its name the key of a registered group that it is not in, the
  loop gives every member the key of the first registered group that has it, and a member
  that is in none its own name, with a new group of that member alone.
\<close>

lemma assign_first_match_aux:
  "distinct ms \<Longrightarrow> noCollision (subgroupMap st) ms \<Longrightarrow> member \<in> set ms \<Longrightarrow>
   (case firstGroup (subgroupMap st) member of
      Some (key, grp) \<Rightarrow>
        map_of (nameToGroupKey (foldl assignMember st ms)) member = Some key
    | None \<Rightarrow>
        map_of (nameToGroupKey (foldl assignMember st ms)) member = Some member \<and>
        map_of (subgroupMap (foldl assignMember st ms)) member = Some [member])"
proof (induction ms arbitrary: st)
  case Nil
  then show ?case by simp
next
  case (Cons x ms)
  let ?st1 = "assignMember st x"
  have sm1: "subgroupMap ?st1
         = (case firstGroup (subgroupMap st) x of
              Some found \<Rightarrow> subgroupMap st
            | None \<Rightarrow> subgroupMap st @ [(x, [x])])"
    using Cons.prems(2) by (rule assignMember_subgroupMap)
  show ?case
  proof (cases "member = x")
    case True
    have notin: "member \<notin> set ms" using Cons.prems(1) True by simp
    note keep = assign_keeps [OF notin, of ?st1]
    show ?thesis
    proof (cases "firstGroup (subgroupMap st) x")
      case None
      have "map_of (nameToGroupKey ?st1) x = Some x"
        using None by (simp add: assignMember_def firstGroup_def map_of_setProp)
      moreover have "map_of (subgroupMap ?st1) x = Some [x]"
        using None by (simp add: assignMember_def firstGroup_def map_of_setProp)
      ultimately show ?thesis using keep True None by simp
    next
      case (Some found)
      obtain key grp where f: "found = (key, grp)" by (cases found)
      have "map_of (nameToGroupKey ?st1) x = Some key"
        using Some f by (simp add: assignMember_def firstGroup_def map_of_setProp)
      then show ?thesis using keep True Some f by simp
    qed
  next
    case False
    then have mem: "member \<in> set ms" using Cons.prems(3) by simp
    have xms: "x \<notin> set ms" and dms: "distinct ms" using Cons.prems(1) by simp_all
    have nc: "noCollision (subgroupMap ?st1) ms"
    proof (cases "firstGroup (subgroupMap st) x")
      case None
      then have "subgroupMap ?st1 = subgroupMap st @ [(x, [x])]" using sm1 by simp
      then show ?thesis using Cons.prems(2) by (auto simp: noCollision_def)
    next
      case (Some found)
      then have "subgroupMap ?st1 = subgroupMap st" using sm1 by simp
      then show ?thesis using Cons.prems(2) by (auto simp: noCollision_def)
    qed
    have same: "firstGroup (subgroupMap ?st1) member = firstGroup (subgroupMap st) member"
    proof (cases "firstGroup (subgroupMap st) x")
      case None
      then have "subgroupMap ?st1 = subgroupMap st @ [(x, [x])]" using sm1 by simp
      then show ?thesis using False by (simp add: firstGroup_def find_append_miss)
    next
      case (Some found)
      then show ?thesis using sm1 by simp
    qed
    show ?thesis
      using Cons.IH [OF dms nc mem] unfolding same foldl_Cons .
  qed
qed


lemma assign_first_match:
  assumes "distinct allMembers" and "noCollision (subgroupMap st) allMembers"
    and "member \<in> set allMembers"
  shows "case firstGroup (subgroupMap st) member of
           Some (key, grp) \<Rightarrow>
             map_of (nameToGroupKey (assignMembersToSubgroups allMembers st)) member = Some key
         | None \<Rightarrow>
             map_of (nameToGroupKey (assignMembersToSubgroups allMembers st)) member = Some member \<and>
             map_of (subgroupMap (assignMembersToSubgroups allMembers st)) member = Some [member]"
  unfolding assignMembersToSubgroups_def using assms by (rule assign_first_match_aux)

text \<open>
  Claim C8, evaluated. The group of a member that is in no registered group is stored
  under the member's name, whether that key is taken or not. The members Ann, \<^verbatim>\<open>Ann,Bob\<close>
  and Bob with the one subgroup \<^verbatim>\<open>Ann, Bob\<close>: Ann gets the key \<^verbatim>\<open>ann,bob\<close> of the
  registered group; the member \<^verbatim>\<open>ann,bob\<close> is in no group, and its own group replaces
  the registered one under that key; Bob, who was in the first registered group, now
  finds none and gets a group of his own, and the group under Ann's key no longer has Ann.
\<close>

theorem member_named_as_group_key:
  "allMembersOf [''Ann'', ''Ann,Bob'', ''Bob''] = [''ann'', ''ann,bob'', ''bob'']
   \<and> subgroupMapOf [''Ann, Bob''] = [(''ann,bob'', [''ann'', ''bob''])]
   \<and> firstGroup (subgroupMapOf [''Ann, Bob'']) ''bob'' = Some (''ann,bob'', [''ann'', ''bob''])
   \<and> assignMembersToSubgroups (allMembersOf [''Ann'', ''Ann,Bob'', ''Bob''])
         \<lparr> subgroupMap = subgroupMapOf [''Ann, Bob''], nameToGroupKey = [], nameToGroup = [] \<rparr>
       = \<lparr> subgroupMap = [(''ann,bob'', [''ann,bob'']), (''bob'', [''bob''])],
           nameToGroupKey = [(''ann'', ''ann,bob''), (''ann,bob'', ''ann,bob''), (''bob'', ''bob'')],
           nameToGroup = [(''ann'', [''ann'', ''bob'']), (''ann,bob'', [''ann,bob'']),
                          (''bob'', [''bob''])] \<rparr>"
  by code_simp

end
